theory Spec2Isabelle
  imports Complex_Main "HOL-Library.Multiset"
begin

section \<open>The durable job queue of \<^verbatim>\<open>jobs.py\<close> and \<^verbatim>\<open>worker.py\<close>\<close>

text \<open>
  The table \<^verbatim>\<open>jobs\<close> is a list of rows in insertion (rowid) order. Every function of
  \<^verbatim>\<open>jobs.py\<close> opens the database, runs its statements and commits; the model passes the
  table in and returns the new table. Each reading of \<^verbatim>\<open>time.time()\<close> is a parameter,
  and so is the identifier that \<^verbatim>\<open>uuid.uuid4()\<close> draws. Timestamps are the column
  type \<^verbatim>\<open>REAL\<close>, modelled as exact reals. The functions \<^verbatim>\<open>json.dumps\<close> and
  \<^verbatim>\<open>json.loads\<close> of the Python library are parameters \<open>dumps\<close> and \<open>loads\<close>;
  \<open>loads s = None\<close> stands for \<^verbatim>\<open>JSONDecodeError\<close>.
\<close>

subsection \<open>Data model\<close>

datatype json =
    JNull
  | JBool bool
  | JInt int
  | JStr string
  | JList "json list"
  | JObj "(string \<times> json) list"

datatype error = IntegrityError | JSONDecodeError

text \<open>
  One record serves the stored row and the dict that \<^verbatim>\<open>get_job\<close> returns: they have the
  same keys and differ in the three JSON columns, which hold text in the table and a
  decoded document in the dict.
\<close>

record ('p, 'r) job =
  job_id :: string
  job_type :: string
  status :: string
  created_at :: real
  updated_at :: real
  started_at :: "real option"
  finished_at :: "real option"
  requested_by :: "string option"
  payload :: 'p
  result :: 'r
  error :: "string option"
  attempts :: int
  max_attempts :: int
  progress :: 'r
  worker_id :: "string option"

type_synonym job_row = "(string, string option) job"

type_synonym jobs_table = "job_row list"

text \<open>
  The value of a JSON column in a returned dict: SQL \<^verbatim>\<open>NULL\<close> (Python \<^verbatim>\<open>None\<close>), the
  stored text left as it is (when it is falsy, that is empty), or the decoded document.
\<close>

datatype cell = Null | Text string | Doc json

type_synonym job_dict = "(cell, cell) job"

subsection \<open>\<^verbatim>\<open>enqueue_job\<close> and \<^verbatim>\<open>get_job\<close>\<close>

definition new_row ::
  "string \<Rightarrow> string \<Rightarrow> real \<Rightarrow> string \<Rightarrow> string option \<Rightarrow> int \<Rightarrow> job_row" where
  "new_row jid jtype now payload_text req max_att =
     \<lparr> job_id = jid, job_type = jtype, status = ''queued'', created_at = now,
       updated_at = now, started_at = None, finished_at = None, requested_by = req,
       payload = payload_text, result = None, error = None, attempts = 0,
       max_attempts = max_att, progress = None, worker_id = None \<rparr>"

text \<open>
  \<^verbatim>\<open>INSERT INTO jobs (id, type, status, created_at, updated_at, payload, requested_by,
  max_attempts) VALUES (?, ?, 'queued', ?, ?, ?, ?, ?)\<close>: the columns not named take
  their defaults (\<^verbatim>\<open>attempts\<close> 0, the others \<^verbatim>\<open>NULL\<close>). The primary key refuses a
  second row with the same id.
\<close>

definition enqueue_job ::
  "(json \<Rightarrow> string) \<Rightarrow> string \<Rightarrow> real \<Rightarrow> string \<Rightarrow> json \<Rightarrow> string option \<Rightarrow> int \<Rightarrow>
     jobs_table \<Rightarrow> error + (string \<times> jobs_table)" where
  "enqueue_job dumps uuid4 now jtype payload_doc req max_att db =
     (if uuid4 \<in> job_id ` set db then Inl IntegrityError
      else Inr (uuid4, db @ [new_row uuid4 jtype now (dumps payload_doc) req max_att]))"

definition fetchone :: "string \<Rightarrow> jobs_table \<Rightarrow> job_row option" where
  "fetchone jid db = find (\<lambda>r. job_id r = jid) db"

text \<open>\<^verbatim>\<open>if job[k]: job[k] = json.loads(job[k])\<close> for one column.\<close>

definition parse_json_field :: "(string \<Rightarrow> json option) \<Rightarrow> string option \<Rightarrow> error + cell" where
  "parse_json_field loads v =
     (case v of
        None \<Rightarrow> Inr Null
      | Some s \<Rightarrow>
          (if s = [] then Inr (Text s)
           else (case loads s of None \<Rightarrow> Inl JSONDecodeError | Some d \<Rightarrow> Inr (Doc d))))"

definition parse_json_fields :: "(string \<Rightarrow> json option) \<Rightarrow> job_row \<Rightarrow> error + job_dict" where
  "parse_json_fields loads r =
     (case parse_json_field loads (Some (payload r)) of
        Inl e \<Rightarrow> Inl e
      | Inr p \<Rightarrow>
          (case parse_json_field loads (result r) of
             Inl e \<Rightarrow> Inl e
           | Inr res \<Rightarrow>
               (case parse_json_field loads (progress r) of
                  Inl e \<Rightarrow> Inl e
                | Inr prog \<Rightarrow>
                    Inr \<lparr> job_id = job_id r, job_type = job_type r, status = status r,
                          created_at = created_at r, updated_at = updated_at r,
                          started_at = started_at r, finished_at = finished_at r,
                          requested_by = requested_by r, payload = p, result = res,
                          error = error r, attempts = attempts r,
                          max_attempts = max_attempts r, progress = prog,
                          worker_id = worker_id r \<rparr>)))"

definition get_job :: "(string \<Rightarrow> json option) \<Rightarrow> string \<Rightarrow> jobs_table \<Rightarrow> error + job_dict option" where
  "get_job loads jid db =
     (case fetchone jid db of
        None \<Rightarrow> Inr None
      | Some r \<Rightarrow> (case parse_json_fields loads r of Inl e \<Rightarrow> Inl e | Inr j \<Rightarrow> Inr (Some j)))"

subsection \<open>\<^verbatim>\<open>claim_next_job\<close>\<close>

text \<open>
  \<^verbatim>\<open>SELECT id FROM jobs WHERE status = 'queued' ORDER BY created_at LIMIT 1\<close>. The
  sort is stable: among rows of equal \<^verbatim>\<open>created_at\<close> the one inserted first comes first,
  as in a scan of the index on \<^verbatim>\<open>(status, created_at)\<close>.
\<close>

definition select_next_queued :: "jobs_table \<Rightarrow> string option" where
  "select_next_queued db =
     (case sort_key created_at (filter (\<lambda>r. status r = ''queued'') db) of
        [] \<Rightarrow> None
      | r # _ \<Rightarrow> Some (job_id r))"

text \<open>
  \<^verbatim>\<open>UPDATE jobs SET status = 'running', started_at = ?, worker_id = ?, updated_at = ?
  WHERE id = ? AND status = 'queued'\<close>
\<close>

definition claim_update :: "real \<Rightarrow> string \<Rightarrow> string \<Rightarrow> jobs_table \<Rightarrow> jobs_table" where
  "claim_update now worker jid db =
     map (\<lambda>r. if job_id r = jid \<and> status r = ''queued''
               then r\<lparr>status := ''running'', started_at := Some now,
                      worker_id := Some worker, updated_at := now\<rparr>
               else r) db"

text \<open>
  The second half of \<^verbatim>\<open>claim_next_job\<close>, from the update on: it runs on the table as
  it is when the update executes, which another process may have changed since the
  select. The function does not look at the number of rows the update changed.
\<close>

definition claim_selected ::
  "(string \<Rightarrow> json option) \<Rightarrow> string \<Rightarrow> real \<Rightarrow> string \<Rightarrow> jobs_table \<Rightarrow>
     (error + job_dict option) \<times> jobs_table" where
  "claim_selected loads worker now jid db =
     (let db' = claim_update now worker jid db in (get_job loads jid db', db'))"

definition claim_next_job ::
  "(string \<Rightarrow> json option) \<Rightarrow> string \<Rightarrow> real \<Rightarrow> jobs_table \<Rightarrow>
     (error + job_dict option) \<times> jobs_table" where
  "claim_next_job loads worker now db =
     (case select_next_queued db of
        None \<Rightarrow> (Inr None, db)
      | Some jid \<Rightarrow> claim_selected loads worker now jid db)"

subsection \<open>\<^verbatim>\<open>update_job_status\<close>\<close>

text \<open>
  The statement built from the list \<^verbatim>\<open>updates\<close>, applied to one row. The assignments
  are independent, so their order does not matter.
\<close>

definition set_clause ::
  "(json \<Rightarrow> string) \<Rightarrow> real \<Rightarrow> string \<Rightarrow> json option \<Rightarrow> string option \<Rightarrow> json option \<Rightarrow>
     int option \<Rightarrow> job_row \<Rightarrow> job_row" where
  "set_clause dumps now st res err prog att r =
     (let r1 = r\<lparr>updated_at := now, status := st\<rparr>;
          r2 = (if st = ''succeeded'' then r1\<lparr>finished_at := Some now\<rparr>
                else if st = ''failed'' then r1\<lparr>finished_at := Some now\<rparr>
                else r1);
          r3 = (case res of None \<Rightarrow> r2 | Some d \<Rightarrow> r2\<lparr>result := Some (dumps d)\<rparr>);
          r4 = (case err of None \<Rightarrow> r3 | Some e \<Rightarrow> r3\<lparr>error := Some e\<rparr>);
          r5 = (case prog of None \<Rightarrow> r4 | Some d \<Rightarrow> r4\<lparr>progress := Some (dumps d)\<rparr>);
          r6 = (case att of None \<Rightarrow> r5 | Some n \<Rightarrow> r5\<lparr>attempts := n\<rparr>)
      in r6)"

definition update_job_status ::
  "(json \<Rightarrow> string) \<Rightarrow> real \<Rightarrow> string \<Rightarrow> string \<Rightarrow> json option \<Rightarrow> string option \<Rightarrow>
     json option \<Rightarrow> int option \<Rightarrow> jobs_table \<Rightarrow> jobs_table" where
  "update_job_status dumps now jid st res err prog att db =
     map (\<lambda>r. if job_id r = jid then set_clause dumps now st res err prog att r else r) db"

subsection \<open>\<^verbatim>\<open>list_jobs\<close>\<close>

text \<open>
  A filter is added to the query only when the argument is truthy: \<^verbatim>\<open>None\<close> and the
  empty string add nothing.
\<close>

definition truthy :: "string option \<Rightarrow> bool" where
  "truthy v = (case v of None \<Rightarrow> False | Some s \<Rightarrow> s \<noteq> [])"

definition where_clause :: "string option \<Rightarrow> string option \<Rightarrow> job_row \<Rightarrow> bool" where
  "where_clause st jtype r =
     ((if truthy st then status r = the st else True) \<and>
      (if truthy jtype then job_type r = the jtype else True))"

text \<open>SQLite's \<^verbatim>\<open>LIMIT n\<close>: a negative \<open>n\<close> means no limit.\<close>

definition sql_limit :: "int \<Rightarrow> 'a list \<Rightarrow> 'a list" where
  "sql_limit n xs = (if n < 0 then xs else take (nat n) xs)"

text \<open>
  \<^verbatim>\<open>ORDER BY created_at DESC\<close>: the ascending stable order read backwards, as a
  backward scan of an index gives it.
\<close>

definition order_by_created_at_desc :: "job_row list \<Rightarrow> job_row list" where
  "order_by_created_at_desc rows = rev (sort_key created_at rows)"

definition list_rows :: "string option \<Rightarrow> string option \<Rightarrow> int \<Rightarrow> jobs_table \<Rightarrow> job_row list" where
  "list_rows st jtype limit db =
     sql_limit limit (order_by_created_at_desc (filter (where_clause st jtype) db))"

text \<open>The loop over the fetched rows: the first row that fails to decode raises.\<close>

fun parse_rows :: "(string \<Rightarrow> json option) \<Rightarrow> job_row list \<Rightarrow> error + job_dict list" where
  "parse_rows loads [] = Inr []"
| "parse_rows loads (r # rs) =
     (case parse_json_fields loads r of
        Inl e \<Rightarrow> Inl e
      | Inr j \<Rightarrow> (case parse_rows loads rs of Inl e \<Rightarrow> Inl e | Inr js \<Rightarrow> Inr (j # js)))"

definition list_jobs ::
  "(string \<Rightarrow> json option) \<Rightarrow> string option \<Rightarrow> string option \<Rightarrow> int \<Rightarrow> jobs_table \<Rightarrow>
     error + job_dict list" where
  "list_jobs loads st jtype limit db = parse_rows loads (list_rows st jtype limit db)"

subsection \<open>\<^verbatim>\<open>requeue_stale_jobs\<close>\<close>

text \<open>
  \<^verbatim>\<open>cutoff = time.time() - timeout_seconds\<close>, then the update with a second reading of
  the clock for \<^verbatim>\<open>updated_at\<close>. A comparison with a \<^verbatim>\<open>NULL\<close> \<^verbatim>\<open>started_at\<close> is not
  true in SQL, so such a row is not selected.
\<close>

definition is_stale :: "real \<Rightarrow> job_row \<Rightarrow> bool" where
  "is_stale cutoff r =
     (status r = ''running'' \<and> (case started_at r of None \<Rightarrow> False | Some s \<Rightarrow> s < cutoff))"

definition requeue_stale_jobs :: "int \<Rightarrow> real \<Rightarrow> real \<Rightarrow> jobs_table \<Rightarrow> jobs_table" where
  "requeue_stale_jobs timeout_seconds now now' db =
     (let cutoff = now - of_int timeout_seconds
      in map (\<lambda>r. if is_stale cutoff r
                   then r\<lparr>status := ''queued'', worker_id := None, updated_at := now'\<rparr>
                   else r) db)"

subsection \<open>A concrete \<^verbatim>\<open>json.dumps\<close> and \<^verbatim>\<open>json.loads\<close>\<close>

text \<open>
  The queue takes the codec as a parameter. Where a concrete one is needed (to run the
  queue on an example), this is the one: Python's default output format (\<^verbatim>\<open>", "\<close> and
  \<^verbatim>\<open>": "\<close> as separators, everything outside the printable ASCII range escaped) for
  documents of objects, arrays, strings, integers, booleans and \<^verbatim>\<open>null\<close>, and a
  recursive-descent reader for that syntax. The reader's recursion is bounded by the
  length of the text.
\<close>

definition digit_char :: "nat \<Rightarrow> char" where
  "digit_char n = ''0123456789'' ! (n mod 10)"

fun str_nat :: "nat \<Rightarrow> string" where
  "str_nat n = (if n < 10 then [digit_char n] else str_nat (n div 10) @ [digit_char n])"

definition str_int :: "int \<Rightarrow> string" where
  "str_int i = (if i < 0 then CHR ''-'' # str_nat (nat (- i)) else str_nat (nat i))"

definition hex_char :: "nat \<Rightarrow> char" where
  "hex_char n = ''0123456789abcdef'' ! (n mod 16)"

definition escape_char :: "char \<Rightarrow> string" where
  "escape_char c =
     (if c = CHR 0x22 then [CHR 0x5C, CHR 0x22]
      else if c = CHR 0x5C then [CHR 0x5C, CHR 0x5C]
      else if c = CHR 0x0A then [CHR 0x5C, CHR ''n'']
      else if c = CHR 0x0D then [CHR 0x5C, CHR ''r'']
      else if c = CHR 0x09 then [CHR 0x5C, CHR ''t'']
      else if c = CHR 0x08 then [CHR 0x5C, CHR ''b'']
      else if c = CHR 0x0C then [CHR 0x5C, CHR ''f'']
      else if of_char c < (0x20 :: nat) \<or> (0x7E :: nat) < of_char c
        then [CHR 0x5C, CHR ''u'', CHR ''0'', CHR ''0'',
              hex_char (of_char c div 16), hex_char (of_char c)]
      else [c])"

definition quote :: "string \<Rightarrow> string" where
  "quote s = CHR 0x22 # concat (map escape_char s) @ [CHR 0x22]"

fun join :: "string \<Rightarrow> string list \<Rightarrow> string" where
  "join sep [] = []"
| "join sep [x] = x"
| "join sep (x # y # ys) = x @ sep @ join sep (y # ys)"

fun json_dumps :: "json \<Rightarrow> string" where
  "json_dumps JNull = ''null''"
| "json_dumps (JBool b) = (if b then ''true'' else ''false'')"
| "json_dumps (JInt i) = str_int i"
| "json_dumps (JStr s) = quote s"
| "json_dumps (JList xs) = ''['' @ join '', '' (map json_dumps xs) @ '']''"
| "json_dumps (JObj kvs) =
     ''{'' @ join '', '' (map (\<lambda>(k, v). quote k @ '': '' @ json_dumps v) kvs) @ ''}''"

definition is_ws :: "char \<Rightarrow> bool" where
  "is_ws c = (c = CHR '' '' \<or> c = CHR 0x0A \<or> c = CHR 0x0D \<or> c = CHR 0x09)"

definition skip_ws :: "string \<Rightarrow> string" where
  "skip_ws s = dropWhile is_ws s"

definition is_digit :: "char \<Rightarrow> bool" where
  "is_digit c = ((48 :: nat) \<le> of_char c \<and> of_char c \<le> (57 :: nat))"

definition digit_val :: "char \<Rightarrow> nat" where
  "digit_val c = of_char c - 48"

definition nat_of_digits :: "string \<Rightarrow> nat" where
  "nat_of_digits ds = foldl (\<lambda>a c. 10 * a + digit_val c) 0 ds"

definition hex_val :: "char \<Rightarrow> nat option" where
  "hex_val c =
     (if is_digit c then Some (digit_val c)
      else if (97 :: nat) \<le> of_char c \<and> of_char c \<le> (102 :: nat) then Some (of_char c - 87)
      else if (65 :: nat) \<le> of_char c \<and> of_char c \<le> (70 :: nat) then Some (of_char c - 55)
      else None)"

definition unescape :: "char \<Rightarrow> char option" where
  "unescape e =
     (if e = CHR 0x22 \<or> e = CHR 0x5C \<or> e = CHR ''/'' then Some e
      else if e = CHR ''n'' then Some (CHR 0x0A)
      else if e = CHR ''r'' then Some (CHR 0x0D)
      else if e = CHR ''t'' then Some (CHR 0x09)
      else if e = CHR ''b'' then Some (CHR 0x08)
      else if e = CHR ''f'' then Some (CHR 0x0C)
      else None)"

text \<open>The text after an opening quote, up to the closing one.\<close>

fun parse_string :: "string \<Rightarrow> (string \<times> string) option" where
  "parse_string [] = None"
| "parse_string (c # cs) =
     (if c = CHR 0x22 then Some ([], cs)
      else if c = CHR 0x5C then
        (case cs of
           [] \<Rightarrow> None
         | e # cs' \<Rightarrow>
             (if e = CHR ''u'' then
                (case cs' of
                   a # b # h # l # rest \<Rightarrow>
                     (if a = CHR ''0'' \<and> b = CHR ''0'' then
                        (case (hex_val h, hex_val l, parse_string rest) of
                           (Some x, Some y, Some (s, r)) \<Rightarrow> Some (char_of (16 * x + y) # s, r)
                         | _ \<Rightarrow> None)
                      else None)
                 | _ \<Rightarrow> None)
              else
                (case (unescape e, parse_string cs') of
                   (Some d, Some (s, r)) \<Rightarrow> Some (d # s, r)
                 | _ \<Rightarrow> None)))
      else (case parse_string cs of None \<Rightarrow> None | Some (s, r) \<Rightarrow> Some (c # s, r)))"

definition parse_number :: "string \<Rightarrow> (json \<times> string) option" where
  "parse_number s =
     (let neg = (case s of c # _ \<Rightarrow> c = CHR ''-'' | [] \<Rightarrow> False);
          body = (if neg then tl s else s);
          ds = takeWhile is_digit body
      in if ds = [] then None
         else Some (JInt ((if neg then - 1 else 1) * int (nat_of_digits ds)),
                    dropWhile is_digit body))"

definition parse_literal :: "string \<Rightarrow> (json \<times> string) option" where
  "parse_literal s =
     (if take 4 s = ''null'' then Some (JNull, drop 4 s)
      else if take 4 s = ''true'' then Some (JBool True, drop 4 s)
      else if take 5 s = ''false'' then Some (JBool False, drop 5 s)
      else parse_number s)"

fun parse_value :: "nat \<Rightarrow> string \<Rightarrow> (json \<times> string) option"
  and parse_items :: "nat \<Rightarrow> string \<Rightarrow> (json list \<times> string) option"
  and parse_pairs :: "nat \<Rightarrow> string \<Rightarrow> ((string \<times> json) list \<times> string) option" where
  "parse_value 0 s = None"
| "parse_value (Suc n) s =
     (case skip_ws s of
        [] \<Rightarrow> None
      | c # cs \<Rightarrow>
          (if c = CHR ''{'' then
             (case skip_ws cs of
                [] \<Rightarrow> None
              | d # r \<Rightarrow>
                  (if d = CHR ''}'' then Some (JObj [], r)
                   else (case parse_pairs n cs of
                           None \<Rightarrow> None
                         | Some (kvs, r') \<Rightarrow> Some (JObj kvs, r'))))
           else if c = CHR ''['' then
             (case skip_ws cs of
                [] \<Rightarrow> None
              | d # r \<Rightarrow>
                  (if d = CHR '']'' then Some (JList [], r)
                   else (case parse_items n cs of
                           None \<Rightarrow> None
                         | Some (vs, r') \<Rightarrow> Some (JList vs, r'))))
           else if c = CHR 0x22 then
             (case parse_string cs of None \<Rightarrow> None | Some (t, r) \<Rightarrow> Some (JStr t, r))
           else parse_literal (c # cs)))"
| "parse_items 0 s = None"
| "parse_items (Suc n) s =
     (case parse_value n s of
        None \<Rightarrow> None
      | Some (v, r) \<Rightarrow>
          (case skip_ws r of
             [] \<Rightarrow> None
           | c # r' \<Rightarrow>
               (if c = CHR '']'' then Some ([v], r')
                else if c = CHR '','' then
                  (case parse_items n r' of
                     None \<Rightarrow> None
                   | Some (vs, r'') \<Rightarrow> Some (v # vs, r''))
                else None)))"
| "parse_pairs 0 s = None"
| "parse_pairs (Suc n) s =
     (case skip_ws s of
        [] \<Rightarrow> None
      | q # s1 \<Rightarrow>
          (if q \<noteq> CHR 0x22 then None
           else (case parse_string s1 of
                   None \<Rightarrow> None
                 | Some (k, s2) \<Rightarrow>
                     (case skip_ws s2 of
                        [] \<Rightarrow> None
                      | col # s3 \<Rightarrow>
                          (if col \<noteq> CHR '':'' then None
                           else (case parse_value n s3 of
                                   None \<Rightarrow> None
                                 | Some (v, r) \<Rightarrow>
                                     (case skip_ws r of
                                        [] \<Rightarrow> None
                                      | c # r' \<Rightarrow>
                                          (if c = CHR ''}'' then Some ([(k, v)], r')
                                           else if c = CHR '','' then
                                             (case parse_pairs n r' of
                                                None \<Rightarrow> None
                                              | Some (kvs, r'') \<Rightarrow> Some ((k, v) # kvs, r''))
                                           else None))))))))"

definition json_loads :: "string \<Rightarrow> json option" where
  "json_loads s =
     (case parse_value (Suc (length s)) s of
        None \<Rightarrow> None
      | Some (v, r) \<Rightarrow> (if skip_ws r = [] then Some v else None))"

subsection \<open>\<^verbatim>\<open>process_job\<close> and the worker loop\<close>

text \<open>
  What happens between the first status update of \<^verbatim>\<open>process_job\<close> and its last:
  reading the payload and running the script either raises an exception \<open>e\<close>
  (\<open>Raised (str e)\<close>) or the script exits with a return code, its output and its error
  output. Failures of the store itself are not modelled.
\<close>

datatype outcome = Raised string | Exited int string string

text \<open>The \<^verbatim>\<open>except Exception\<close> branch.\<close>

definition on_exception ::
  "(json \<Rightarrow> string) \<Rightarrow> job_dict \<Rightarrow> string \<Rightarrow> real \<Rightarrow> jobs_table \<Rightarrow> jobs_table" where
  "on_exception dumps job e now db =
     (let err = ''Worker exception: '' @ e;
          att = attempts job + 1
      in if att \<ge> max_attempts job
         then update_job_status dumps now (job_id job) ''failed'' None (Some err) None (Some att) db
         else update_job_status dumps now (job_id job) ''queued'' None (Some err) None (Some att) db)"

definition process_job ::
  "(json \<Rightarrow> string) \<Rightarrow> job_dict \<Rightarrow> outcome \<Rightarrow> real \<Rightarrow> real \<Rightarrow> jobs_table \<Rightarrow> jobs_table" where
  "process_job dumps job out t1 t2 db =
     (if job_type job = ''generate_amazon_content'' then
        (let db1 = update_job_status dumps t1 (job_id job) ''running'' None None
                     (Some (JObj [(''stage'', JStr ''starting'')])) None db
         in case out of
              Exited returncode stdout stderr \<Rightarrow>
                (if returncode = 0
                 then update_job_status dumps t2 (job_id job) ''succeeded''
                        (Some (JObj [(''output'', JStr stdout)])) None None None db1
                 else update_job_status dumps t2 (job_id job) ''failed'' None
                        (Some (if stderr \<noteq> [] then stderr else ''Script failed''))
                        None None db1)
            | Raised e \<Rightarrow> on_exception dumps job e t2 db1)
      else update_job_status dumps t1 (job_id job) ''failed'' None
             (Some (''Unknown job type: '' @ job_type job)) None None db)"

text \<open>
  The clock readings of one pass through the loop body, in the order the code takes
  them: two in \<^verbatim>\<open>requeue_stale_jobs\<close>, one in \<^verbatim>\<open>claim_next_job\<close>, two in the status
  updates of \<^verbatim>\<open>process_job\<close>.
\<close>

record readings =
  t_cutoff :: real
  t_requeue :: real
  t_claim :: real
  t_first :: real
  t_last :: real

text \<open>
  One pass through the body of \<^verbatim>\<open>while True\<close> in \<^verbatim>\<open>worker_loop\<close>. The state is the
  counter \<^verbatim>\<open>consecutive_empty_polls\<close> and the table; the Boolean tells whether
  \<^verbatim>\<open>process_job\<close> ran. An exception out of \<^verbatim>\<open>claim_next_job\<close> is caught by the loop
  and leaves the counter as it is.
\<close>

definition worker_pass ::
  "(string \<Rightarrow> json option) \<Rightarrow> (json \<Rightarrow> string) \<Rightarrow> string \<Rightarrow> int \<Rightarrow> outcome \<Rightarrow> readings \<Rightarrow>
     nat \<times> jobs_table \<Rightarrow> bool \<times> nat \<times> jobs_table" where
  "worker_pass loads dumps worker stale_timeout out t st =
     (let polls = fst st;
          db0 = (if polls mod 30 = 0
                 then requeue_stale_jobs stale_timeout (t_cutoff t) (t_requeue t) (snd st)
                 else snd st)
      in case claim_next_job loads worker (t_claim t) db0 of
           (Inr (Some job), db1) \<Rightarrow> (True, 0, process_job dumps job out (t_first t) (t_last t) db1)
         | (Inr None, db1) \<Rightarrow> (False, polls + 1, db1)
         | (Inl e, db1) \<Rightarrow> (False, polls, db1))"

text \<open>
  The loop run for as many passes as there are clock readings, with a handler that has
  the same outcome every time; the result counts the runs of \<^verbatim>\<open>process_job\<close>.
\<close>

fun worker_loop ::
  "(string \<Rightarrow> json option) \<Rightarrow> (json \<Rightarrow> string) \<Rightarrow> string \<Rightarrow> int \<Rightarrow> outcome \<Rightarrow> readings list \<Rightarrow>
     nat \<times> jobs_table \<Rightarrow> nat \<times> nat \<times> jobs_table" where
  "worker_loop loads dumps worker stale_timeout out [] st = (0, st)"
| "worker_loop loads dumps worker stale_timeout out (t # ts) st =
     (case worker_pass loads dumps worker stale_timeout out t st of
        (executed, st') \<Rightarrow>
          (case worker_loop loads dumps worker stale_timeout out ts st' of
             (n, st'') \<Rightarrow> ((if executed then Suc n else n), st'')))"

subsection \<open>Example tables\<close>

definition example_row :: "string \<Rightarrow> real \<Rightarrow> job_row" where
  "example_row jid t = new_row jid ''generate_amazon_content'' t ''{}'' None 3"

definition example_table :: jobs_table where
  "example_table = [example_row ''j1'' 10, example_row ''j2'' 11]"

definition claimed_table :: jobs_table where
  "claimed_table = snd (claim_next_job json_loads ''worker-1'' 100 example_table)"

definition single_job_table :: jobs_table where
  "single_job_table = [example_row ''j1'' 10]"

definition requeued_table :: jobs_table where
  "requeued_table = requeue_stale_jobs 600 701 702 claimed_table"


subsection \<open>States of a job that is retried\<close>

text \<open>
  \<open>decodes\<close>: the column decodes without an error. \<open>retrying\<close>: the row is the queued
  job \<open>jid\<close> of the type the worker knows, with \<open>i\<close> attempts of \<open>m\<close>, and
  \<^verbatim>\<open>get_job\<close> can decode it.
\<close>

definition decodes :: "(string \<Rightarrow> json option) \<Rightarrow> string option \<Rightarrow> bool" where
  "decodes loads v = (case parse_json_field loads v of Inl e \<Rightarrow> False | Inr c \<Rightarrow> True)"

definition stage_starting :: json where
  "stage_starting = JObj [(''stage'', JStr ''starting'')]"

definition retrying :: "(string \<Rightarrow> json option) \<Rightarrow> string \<Rightarrow> int \<Rightarrow> int \<Rightarrow> job_row \<Rightarrow> bool" where
  "retrying loads jid m i r =
     (job_id r = jid \<and> job_type r = ''generate_amazon_content'' \<and> max_attempts r = m \<and>
      attempts r = i \<and> status r = ''queued'' \<and> decodes loads (Some (payload r)) \<and>
      decodes loads (result r) \<and> decodes loads (progress r))"

definition example_readings :: readings where
  "example_readings =
     \<lparr> t_cutoff = 100, t_requeue = 100, t_claim = 100, t_first = 101, t_last = 102 \<rparr>"

subsection \<open>The store and its workers as a transition system\<close>

text \<open>
  \<^verbatim>\<open>process_job\<close> issues its status updates one at a time, and other processes can act
  in between. \<open>worker_first\<close> is its first update and \<open>worker_last\<close> its second;
  for a job type the worker does not know the first update is the only one.
\<close>

definition worker_first :: "(json \<Rightarrow> string) \<Rightarrow> job_dict \<Rightarrow> real \<Rightarrow> jobs_table \<Rightarrow> jobs_table" where
  "worker_first dumps job t db =
     (if job_type job = ''generate_amazon_content''
      then update_job_status dumps t (job_id job) ''running'' None None
             (Some (JObj [(''stage'', JStr ''starting'')])) None db
      else update_job_status dumps t (job_id job) ''failed'' None
             (Some (''Unknown job type: '' @ job_type job)) None None db)"

definition worker_last ::
  "(json \<Rightarrow> string) \<Rightarrow> job_dict \<Rightarrow> outcome \<Rightarrow> real \<Rightarrow> jobs_table \<Rightarrow> jobs_table" where
  "worker_last dumps job out t db =
     (if job_type job = ''generate_amazon_content''
      then (case out of
              Exited returncode stdout stderr \<Rightarrow>
                (if returncode = 0
                 then update_job_status dumps t (job_id job) ''succeeded''
                        (Some (JObj [(''output'', JStr stdout)])) None None None db
                 else update_job_status dumps t (job_id job) ''failed'' None
                        (Some (if stderr \<noteq> [] then stderr else ''Script failed''))
                        None None db)
            | Raised e \<Rightarrow> on_exception dumps job e t db)
      else db)"

text \<open>
  The store together with what the worker processes hold in their own memory between
  two statements: \<open>selected\<close> has \<open>(w, jid)\<close> when worker \<open>w\<close> has run the select of
  \<^verbatim>\<open>claim_next_job\<close> and not yet its update; \<open>held\<close> has \<open>(w, b, job)\<close> when
  \<^verbatim>\<open>claim_next_job\<close> has returned \<open>job\<close> to \<open>w\<close>, with \<open>b\<close> telling whether the first
  status update of \<^verbatim>\<open>process_job\<close> has run. The last two fields record history: the
  ids of the jobs that have been seen \<^verbatim>\<open>running\<close>, and \<^verbatim>\<open>succeeded\<close> or \<^verbatim>\<open>failed\<close>.
\<close>

record system =
  table :: jobs_table
  selected :: "(string \<times> string) set"
  held :: "(string \<times> bool \<times> job_dict) set"
  was_running :: "string set"
  was_finished :: "string set"

definition empty_store :: system where
  "empty_store = \<lparr>table = [], selected = {}, held = {}, was_running = {}, was_finished = {}\<rparr>"

definition observe :: "jobs_table \<Rightarrow> system \<Rightarrow> system" where
  "observe db s =
     s\<lparr>table := db,
       was_running := was_running s \<union> job_id ` {r \<in> set db. status r = ''running''},
       was_finished := was_finished s \<union>
         job_id ` {r \<in> set db. status r = ''succeeded'' \<or> status r = ''failed''}\<rparr>"

definition idle :: "string \<Rightarrow> system \<Rightarrow> bool" where
  "idle w s = (w \<notin> fst ` selected s \<and> w \<notin> fst ` held s)"

text \<open>
  One statement of one process. Each statement of \<^verbatim>\<open>jobs.py\<close> commits on its own, so
  the statements of different processes interleave freely; an event whose process is not
  at that point of its code leaves the state as it is.
\<close>

datatype event =
    Enqueue string real string json "string option" int
  | Requeue int real real
  | Select string
  | Claim string string real
  | First string job_dict real
  | Last string job_dict outcome real

fun apply_event ::
  "(string \<Rightarrow> json option) \<Rightarrow> (json \<Rightarrow> string) \<Rightarrow> event \<Rightarrow> system \<Rightarrow> system" where
  "apply_event loads dumps (Enqueue uuid4 now jtype P req m) s =
     (case enqueue_job dumps uuid4 now jtype P req m (table s) of
        Inl e \<Rightarrow> s
      | Inr (jid, db') \<Rightarrow> observe db' s)"
| "apply_event loads dumps (Requeue timeout now now') s =
     observe (requeue_stale_jobs timeout now now' (table s)) s"
| "apply_event loads dumps (Select w) s =
     (if idle w s
      then (case select_next_queued (table s) of
              None \<Rightarrow> s
            | Some jid \<Rightarrow> s\<lparr>selected := insert (w, jid) (selected s)\<rparr>)
      else s)"
| "apply_event loads dumps (Claim w jid now) s =
     (if (w, jid) \<in> selected s
      then (case claim_selected loads w now jid (table s) of
              (res, db') \<Rightarrow>
                (observe db' s)
                  \<lparr>selected := selected s - {(w, jid)},
                   held := (case res of
                              Inr (Some j) \<Rightarrow> insert (w, False, j) (held s)
                            | _ \<Rightarrow> held s)\<rparr>)
      else s)"
| "apply_event loads dumps (First w j t) s =
     (if (w, False, j) \<in> held s
      then (observe (worker_first dumps j t (table s)) s)
             \<lparr>held := (if job_type j = ''generate_amazon_content''
                       then insert (w, True, j) (held s - {(w, False, j)})
                       else held s - {(w, False, j)})\<rparr>
      else s)"
| "apply_event loads dumps (Last w j out t) s =
     (if (w, True, j) \<in> held s
      then (observe (worker_last dumps j out t (table s)) s)\<lparr>held := held s - {(w, True, j)}\<rparr>
      else s)"

inductive reachable :: "(string \<Rightarrow> json option) \<Rightarrow> (json \<Rightarrow> string) \<Rightarrow> system \<Rightarrow> bool"
  for loads :: "string \<Rightarrow> json option" and dumps :: "json \<Rightarrow> string" where
  initial: "reachable loads dumps empty_store"
| step: "reachable loads dumps s \<Longrightarrow> reachable loads dumps (apply_event loads dumps e s)"


text \<open>
  The invariant of one row, given whether its id has been seen running and finished, and
  the invariant of the whole state.
\<close>

definition row_inv :: "bool \<Rightarrow> bool \<Rightarrow> job_row \<Rightarrow> bool" where
  "row_inv wg wn r =
     ((status r = ''queued'' \<or> status r = ''running'' \<or> status r = ''succeeded'' \<or>
       status r = ''failed'') \<and>
      (status r = ''succeeded'' \<or> status r = ''failed'' \<longrightarrow> finished_at r \<noteq> None) \<and>
      (started_at r \<noteq> None \<longleftrightarrow> wg) \<and>
      (finished_at r \<noteq> None \<longleftrightarrow> wn) \<and>
      (status r \<noteq> ''queued'' \<longrightarrow> started_at r \<noteq> None))"

definition store_inv :: "system \<Rightarrow> bool" where
  "store_inv s =
     (distinct (map job_id (table s)) \<and>
      (\<forall>r \<in> set (table s). row_inv (job_id r \<in> was_running s) (job_id r \<in> was_finished s) r) \<and>
      was_running s \<subseteq> job_id ` set (table s) \<and>
      was_finished s \<subseteq> job_id ` set (table s) \<and>
      (\<forall>h \<in> held s. job_id (snd (snd h)) \<in> was_running s))"

subsection \<open>A job reclaimed as stale while its first worker is still running\<close>

text \<open>
  Worker A claims the job at 100 and starts it. At 701 the job is reclaimed as stale;
  worker B claims it at 703 and starts it too. A's script ends well at 800; B's raises
  at 900. \<open>job_A\<close> and \<open>job_B\<close> are the dicts \<^verbatim>\<open>claim_next_job\<close> returned to them.
\<close>

definition job_A :: job_dict where
  "job_A =
     \<lparr> job_id = ''j1'', job_type = ''generate_amazon_content'', status = ''running'',
       created_at = 10, updated_at = 100, started_at = Some 100, finished_at = None,
       requested_by = None, payload = Doc (JObj []), result = Null, error = None,
       attempts = 0, max_attempts = 3, progress = Null, worker_id = Some ''worker-A'' \<rparr>"

definition job_B :: job_dict where
  "job_B =
     \<lparr> job_id = ''j1'', job_type = ''generate_amazon_content'', status = ''running'',
       created_at = 10, updated_at = 703, started_at = Some 703, finished_at = None,
       requested_by = None, payload = Doc (JObj []), result = Null, error = None,
       attempts = 0, max_attempts = 3, progress = Doc stage_starting,
       worker_id = Some ''worker-B'' \<rparr>"

definition stale_trace :: "event list" where
  "stale_trace =
     [Enqueue ''j1'' 10 ''generate_amazon_content'' (JObj []) None 3,
      Select ''worker-A'',
      Claim ''worker-A'' ''j1'' 100,
      First ''worker-A'' job_A 101,
      Requeue 600 701 702,
      Select ''worker-B'',
      Claim ''worker-B'' ''j1'' 703,
      First ''worker-B'' job_B 704,
      Last ''worker-A'' job_A (Exited 0 ''ok'' []) 800,
      Last ''worker-B'' job_B (Raised ''boom'') 900]"

definition run :: "(string \<Rightarrow> json option) \<Rightarrow> (json \<Rightarrow> string) \<Rightarrow> event list \<Rightarrow> system" where
  "run loads dumps es = foldl (\<lambda>s e. apply_event loads dumps e s) empty_store es"

section \<open>Properties\<close>

subsection \<open>Looking a row up after an update\<close>

lemma job_id_set_clause: "job_id (set_clause dumps now st res err prog att r) = job_id r"
  by (simp add: set_clause_def Let_def split: option.splits)

lemma fetchone_map_same:
  assumes "\<And>r. job_id (f r) = job_id r"
  shows "fetchone k (map (\<lambda>r. if P r then f r else r) db) =
         map_option (\<lambda>r. if P r then f r else r) (fetchone k db)"
  using assms by (induction db) (auto simp: fetchone_def)

lemma fetchone_update_job_status:
  "fetchone k (update_job_status dumps now jid st res err prog att db) =
     map_option (\<lambda>r. if job_id r = jid then set_clause dumps now st res err prog att r else r)
       (fetchone k db)"
  unfolding update_job_status_def by (rule fetchone_map_same) (rule job_id_set_clause)

lemma fetchone_job_id: "fetchone k db = Some r \<Longrightarrow> job_id r = k"
  by (induction db) (auto simp: fetchone_def split: if_splits)

lemma fetchone_other_update:
  "k \<noteq> jid \<Longrightarrow> fetchone k (update_job_status dumps now jid st res err prog att db) = fetchone k db"
  by (cases "fetchone k db") (auto simp: fetchone_update_job_status dest: fetchone_job_id)


subsection \<open>\<^verbatim>\<open>update_job_status\<close> is a partial update\<close>

text \<open>
  Claim C6. For a job id present in the table, \<^verbatim>\<open>update_job_status\<close> leaves the row's
  id, type, creation time, start time, originator, payload, attempt bound and worker as
  they were; it writes the supplied status and refreshes \<^verbatim>\<open>updated_at\<close>; it sets
  \<^verbatim>\<open>finished_at\<close> to the same clock reading exactly when the supplied status is
  \<^verbatim>\<open>succeeded\<close> or \<^verbatim>\<open>failed\<close> and keeps it otherwise; each of \<^verbatim>\<open>result\<close>,
  \<^verbatim>\<open>error\<close>, \<^verbatim>\<open>progress\<close> and \<^verbatim>\<open>attempts\<close> is rewritten when supplied and kept when
  not; and every row with another id is unchanged.
\<close>

theorem update_job_status_frame:
  assumes "fetchone jid db = Some r"
  shows "(\<exists>r'. fetchone jid (update_job_status dumps now jid st res err prog att db) = Some r' \<and>
           job_id r' = job_id r \<and> job_type r' = job_type r \<and> created_at r' = created_at r \<and>
           started_at r' = started_at r \<and> requested_by r' = requested_by r \<and>
           payload r' = payload r \<and> max_attempts r' = max_attempts r \<and>
           worker_id r' = worker_id r \<and>
           status r' = st \<and> updated_at r' = now \<and>
           finished_at r' = (if st = ''succeeded'' \<or> st = ''failed'' then Some now else finished_at r) \<and>
           result r' = (case res of None \<Rightarrow> result r | Some d \<Rightarrow> Some (dumps d)) \<and>
           error r' = (case err of None \<Rightarrow> error r | Some e \<Rightarrow> Some e) \<and>
           progress r' = (case prog of None \<Rightarrow> progress r | Some d \<Rightarrow> Some (dumps d)) \<and>
           attempts r' = (case att of None \<Rightarrow> attempts r | Some n \<Rightarrow> n)) \<and>
         (\<forall>k. k \<noteq> jid \<longrightarrow>
            fetchone k (update_job_status dumps now jid st res err prog att db) = fetchone k db)"
proof -
  have k: "job_id r = jid" using assms by (rule fetchone_job_id)
  have "fetchone jid (update_job_status dumps now jid st res err prog att db) =
          Some (set_clause dumps now st res err prog att r)"
    using assms k by (simp add: fetchone_update_job_status)
  then show ?thesis
    by (simp add: set_clause_def Let_def fetchone_other_update split: option.splits)
qed

theorem update_job_status_frame_witness:
  "fetchone ''j1'' example_table = Some (example_row ''j1'' 10) \<and>
   (\<exists>r'. fetchone ''j1'' (update_job_status json_dumps 20 ''j1'' ''failed'' None (Some ''boom'') None
              (Some 1) example_table) = Some r' \<and>
         status r' = ''failed'' \<and> updated_at r' = 20 \<and> finished_at r' = Some 20 \<and>
         error r' = Some ''boom'' \<and> attempts r' = 1 \<and> result r' = None \<and> progress r' = None \<and>
         worker_id r' = None \<and> started_at r' = None \<and> payload r' = ''{}'' \<and> created_at r' = 10) \<and>
   fetchone ''j2'' (update_job_status json_dumps 20 ''j1'' ''failed'' None (Some ''boom'') None
      (Some 1) example_table) = Some (example_row ''j2'' 11)"
proof -
  have h: "fetchone ''j1'' example_table = Some (example_row ''j1'' 10)"
    by (simp add: fetchone_def example_table_def example_row_def new_row_def)
  have h2: "fetchone ''j2'' example_table = Some (example_row ''j2'' 11)"
    by (simp add: fetchone_def example_table_def example_row_def new_row_def)
  note t = update_job_status_frame [OF h, of json_dumps 20 "''failed''" None "Some ''boom''" None "Some 1"]
  from t obtain r' where
    r': "fetchone ''j1'' (update_job_status json_dumps 20 ''j1'' ''failed'' None (Some ''boom'') None
              (Some 1) example_table) = Some r'"
      "status r' = ''failed''" "updated_at r' = 20" "finished_at r' = Some 20"
      "error r' = Some ''boom''" "attempts r' = 1" "result r' = result (example_row ''j1'' 10)"
      "progress r' = progress (example_row ''j1'' 10)" "worker_id r' = worker_id (example_row ''j1'' 10)"
      "started_at r' = started_at (example_row ''j1'' 10)" "payload r' = payload (example_row ''j1'' 10)"
      "created_at r' = created_at (example_row ''j1'' 10)"
    by auto
  have o: "fetchone ''j2'' (update_job_status json_dumps 20 ''j1'' ''failed'' None (Some ''boom'') None
      (Some 1) example_table) = fetchone ''j2'' example_table"
    using t by simp
  show ?thesis
    using h h2 o r' by (simp add: example_row_def new_row_def)
qed

subsection \<open>\<^verbatim>\<open>requeue_stale_jobs\<close>\<close>

lemma fetchone_requeue_stale_jobs:
  "fetchone k (requeue_stale_jobs timeout now now' db) =
     map_option (\<lambda>r. if is_stale (now - of_int timeout) r
                       then r\<lparr>status := ''queued'', worker_id := None, updated_at := now'\<rparr>
                       else r) (fetchone k db)"
  unfolding requeue_stale_jobs_def Let_def by (rule fetchone_map_same) simp

lemma claimed_table_eq:
  "claimed_table =
     [(example_row ''j1'' 10)\<lparr>status := ''running'', started_at := Some 100,
         worker_id := Some ''worker-1'', updated_at := 100\<rparr>, example_row ''j2'' 11]"
  by (simp add: claimed_table_def claim_next_job_def select_next_queued_def example_table_def
      example_row_def new_row_def claim_selected_def claim_update_def Let_def)


text \<open>
  Claim C3, amended at the boundary. \<^verbatim>\<open>requeue_stale_jobs\<close> keeps every row's id and
  \<^verbatim>\<open>attempts\<close>; a row that is \<^verbatim>\<open>running\<close> with a \<^verbatim>\<open>started_at\<close> strictly below the
  first clock reading minus the timeout becomes \<^verbatim>\<open>queued\<close> with \<^verbatim>\<open>worker_id\<close> null and
  \<^verbatim>\<open>updated_at\<close> the second clock reading, and every other row is unchanged. So a job
  claimed at time \<open>T\<close> and still \<^verbatim>\<open>running\<close> stays as it is when the call reads a clock of
  at most \<open>T + timeout\<close>, and is requeued when the clock is strictly later than
  \<open>T + timeout\<close>.
\<close>

theorem requeue_stale_jobs_strict:
  "map job_id (requeue_stale_jobs timeout now now' db) = map job_id db \<and>
   map attempts (requeue_stale_jobs timeout now now' db) = map attempts db \<and>
   (\<forall>k r. fetchone k db = Some r \<longrightarrow>
      fetchone k (requeue_stale_jobs timeout now now' db) =
        Some (if status r = ''running'' \<and> (\<exists>s. started_at r = Some s \<and> s < now - of_int timeout)
              then r\<lparr>status := ''queued'', worker_id := None, updated_at := now'\<rparr>
              else r)) \<and>
   (\<forall>k r T. fetchone k db = Some r \<and> status r = ''running'' \<and> started_at r = Some T \<longrightarrow>
      (now \<le> T + of_int timeout \<longrightarrow> fetchone k (requeue_stale_jobs timeout now now' db) = Some r) \<and>
      (T + of_int timeout < now \<longrightarrow>
         fetchone k (requeue_stale_jobs timeout now now' db) =
           Some (r\<lparr>status := ''queued'', worker_id := None, updated_at := now'\<rparr>)))"
proof -
  have a: "map job_id (requeue_stale_jobs timeout now now' db) = map job_id db"
    by (simp add: requeue_stale_jobs_def Let_def)
  have b: "map attempts (requeue_stale_jobs timeout now now' db) = map attempts db"
    by (simp add: requeue_stale_jobs_def Let_def)
  have c: "is_stale (now - of_int timeout) r =
             (status r = ''running'' \<and> (\<exists>s. started_at r = Some s \<and> s < now - of_int timeout))" for r
    by (simp add: is_stale_def split: option.splits)
  have d: "is_stale (now - of_int timeout) r = (T + of_int timeout < now)"
    if "status r = ''running''" "started_at r = Some T" for r T
    using that by (auto simp: is_stale_def)
  show ?thesis
    using a b by (auto simp: fetchone_requeue_stale_jobs c)
qed

theorem requeue_stale_jobs_strict_witness:
  "fetchone ''j1'' claimed_table =
     Some ((example_row ''j1'' 10)\<lparr>status := ''running'', started_at := Some 100,
         worker_id := Some ''worker-1'', updated_at := 100\<rparr>) \<and>
   fetchone ''j1'' (requeue_stale_jobs 600 699 699 claimed_table) =
     Some ((example_row ''j1'' 10)\<lparr>status := ''running'', started_at := Some 100,
         worker_id := Some ''worker-1'', updated_at := 100\<rparr>) \<and>
   fetchone ''j1'' (requeue_stale_jobs 600 701 702 claimed_table) =
     Some ((example_row ''j1'' 10)\<lparr>status := ''queued'', started_at := Some 100,
         worker_id := None, updated_at := 702\<rparr>)"
proof -
  let ?r = "(example_row ''j1'' 10)\<lparr>status := ''running'', started_at := Some 100,
         worker_id := Some ''worker-1'', updated_at := 100\<rparr>"
  have h: "fetchone ''j1'' claimed_table = Some ?r"
    by (simp add: claimed_table_eq fetchone_def example_row_def new_row_def)
  have s: "status ?r = ''running''" "started_at ?r = Some 100" by simp_all
  have "fetchone ''j1'' (requeue_stale_jobs 600 699 699 claimed_table) = Some ?r"
    using requeue_stale_jobs_strict [of 600 699 699 claimed_table] h s by simp
  moreover have "fetchone ''j1'' (requeue_stale_jobs 600 701 702 claimed_table) =
      Some (?r\<lparr>status := ''queued'', worker_id := None, updated_at := 702\<rparr>)"
    using requeue_stale_jobs_strict [of 600 701 702 claimed_table] h s by simp
  ultimately show ?thesis using h by simp
qed


text \<open>
  The claim as written requeues the job at time \<open>T + timeout\<close> itself. The comparison
  \<^verbatim>\<open>started_at < cutoff\<close> is strict: a job claimed at 100 is still \<^verbatim>\<open>running\<close> after a
  call with timeout 600 at time 700.
\<close>

theorem requeue_at_timeout_counterexample:
  "map status claimed_table = [''running'', ''queued''] \<and>
   map started_at claimed_table = [Some 100, None] \<and>
   (100 :: real) + of_int 600 \<le> 700 \<and>
   map status (requeue_stale_jobs 600 700 700 claimed_table) = [''running'', ''queued'']"
  by (simp add: claimed_table_eq requeue_stale_jobs_def is_stale_def example_row_def new_row_def)


subsection \<open>Empty filters of \<^verbatim>\<open>list_jobs\<close>\<close>

text \<open>
  Claim C10. An empty-string status filter gives the same result as no status filter,
  an empty-string type filter the same as no type filter, and with both empty no row is
  filtered out.
\<close>

theorem list_jobs_empty_string_filter:
  "list_jobs loads (Some []) jtype limit db = list_jobs loads None jtype limit db \<and>
   list_jobs loads st (Some []) limit db = list_jobs loads st None limit db \<and>
   list_rows (Some []) (Some []) limit db = sql_limit limit (order_by_created_at_desc db)"
proof -
  have a: "where_clause (Some []) jtype = where_clause None jtype"
    by (rule ext) (simp add: where_clause_def truthy_def)
  have b: "where_clause st (Some []) = where_clause st None"
    by (rule ext) (simp add: where_clause_def truthy_def)
  have c: "filter (where_clause (Some []) (Some [])) db = db"
    by (simp add: where_clause_def truthy_def)
  show ?thesis
    by (simp add: list_jobs_def list_rows_def a b c)
qed


text \<open>No row of the example table has the empty status, and both are listed.\<close>

lemma list_jobs_empty_status_example:
  "map status (list_rows (Some []) None 50 example_table) = [''queued'', ''queued'']"
  by (simp add: list_rows_def where_clause_def truthy_def example_table_def example_row_def
      new_row_def order_by_created_at_desc_def sql_limit_def)

subsection \<open>Which job the select of \<^verbatim>\<open>claim_next_job\<close> finds\<close>

lemma fetchone_distinct:
  "distinct (map job_id db) \<Longrightarrow> r \<in> set db \<Longrightarrow> fetchone (job_id r) db = Some r"
  by (induction db) (auto simp: fetchone_def)

lemma fetchone_in_set: "fetchone k db = Some r \<Longrightarrow> r \<in> set db"
  by (induction db) (auto simp: fetchone_def split: if_splits)

lemma fetchone_claim_update:
  "fetchone k (claim_update now w jid db) =
     map_option (\<lambda>r. if job_id r = jid \<and> status r = ''queued''
                       then r\<lparr>status := ''running'', started_at := Some now,
                              worker_id := Some w, updated_at := now\<rparr>
                       else r) (fetchone k db)"
  unfolding claim_update_def by (rule fetchone_map_same) simp

lemma sort_key_head_least:
  assumes "sort_key f xs = y # ys"
  shows "y \<in> set xs \<and> (\<forall>x \<in> set xs. f y \<le> f x)"
proof -
  have s: "set (y # ys) = set xs" using assms set_sort [of f xs] by simp
  have "sorted (map f (y # ys))" using assms sorted_sort_key [of f xs] by simp
  then have "\<forall>x \<in> set (y # ys). f y \<le> f x" by auto
  then show ?thesis using s by auto
qed

lemma sort_key_head_first:
  assumes "sort_key f xs = y # ys"
  shows "\<exists>zs. filter (\<lambda>x. f x = f y) xs = y # zs"
proof -
  have "filter (\<lambda>x. f x = f y) xs = filter (\<lambda>x. f x = f y) (sort_key f xs)"
    by (simp add: sort_key_stable)
  then show ?thesis using assms by simp
qed

lemma select_next_queued_None:
  "select_next_queued db = None \<longleftrightarrow> (\<forall>r \<in> set db. status r \<noteq> ''queued'')"
proof -
  have "sort_key created_at (filter (\<lambda>r. status r = ''queued'') db) = [] \<longleftrightarrow>
        filter (\<lambda>r. status r = ''queued'') db = []"
    using length_sort [of created_at "filter (\<lambda>r. status r = ''queued'') db"]
    by (simp only: length_0_conv [symmetric])
  then show ?thesis
    by (auto simp: select_next_queued_def filter_empty_conv split: list.splits)
qed

lemma select_next_queued_Some:
  assumes "select_next_queued db = Some jid"
  shows "\<exists>r ys. sort_key created_at (filter (\<lambda>r. status r = ''queued'') db) = r # ys \<and>
           job_id r = jid \<and> r \<in> set db \<and> status r = ''queued'' \<and>
           (\<forall>q \<in> set db. status q = ''queued'' \<longrightarrow> created_at r \<le> created_at q)"
proof -
  from assms obtain r ys where
    s: "sort_key created_at (filter (\<lambda>r. status r = ''queued'') db) = r # ys" and j: "job_id r = jid"
    by (auto simp: select_next_queued_def split: list.splits)
  from sort_key_head_least [OF s] show ?thesis using s j by auto
qed

lemma select_next_queued_sorted:
  assumes "sorted (map created_at db)"
  shows "select_next_queued db = map_option job_id (find (\<lambda>r. status r = ''queued'') db)"
proof -
  have "sorted (map created_at (filter (\<lambda>r. status r = ''queued'') db))"
    using assms by (rule sorted_filter)
  then have "sort_key created_at (filter (\<lambda>r. status r = ''queued'') db) =
             filter (\<lambda>r. status r = ''queued'') db"
    by (rule sort_key_id_if_sorted)
  moreover have "(case filter P xs of [] \<Rightarrow> None | r # _ \<Rightarrow> Some (g r)) = map_option g (find P xs)"
    for P :: "'a \<Rightarrow> bool" and xs and g :: "'a \<Rightarrow> 'b"
    by (induction xs) auto
  ultimately show ?thesis by (simp add: select_next_queued_def)
qed

lemma same_job_id:
  fixes db :: jobs_table
  assumes d: "distinct (map job_id db)" and r: "r \<in> set db" and b: "b \<in> set db"
    and j: "job_id r = job_id b"
  shows "r = b"
proof -
  have "inj_on job_id (set db)" using d by (simp only: distinct_map)
  then show ?thesis using j r b by (rule inj_onD)
qed

lemma select_next_queued_not_later:
  assumes d: "distinct (map job_id (pre @ a # mid @ b # post))"
    and a: "status a = ''queued''" and le: "created_at a \<le> created_at b"
  shows "select_next_queued (pre @ a # mid @ b # post) \<noteq> Some (job_id b)"
proof
  let ?db = "pre @ a # mid @ b # post"
  let ?P = "\<lambda>x. status x = ''queued'' \<and> created_at x = created_at b"
  assume "select_next_queued ?db = Some (job_id b)"
  from select_next_queued_Some [OF this] obtain r ys where
    s: "sort_key created_at (filter (\<lambda>r. status r = ''queued'') ?db) = r # ys" and
    j: "job_id r = job_id b" and r: "r \<in> set ?db" and
    m: "\<forall>q \<in> set ?db. status q = ''queued'' \<longrightarrow> created_at r \<le> created_at q"
    by blast
  have bin: "b \<in> set ?db" by simp
  have rb: "r = b" by (rule same_job_id [OF d r bin j])
  have ain: "a \<in> set ?db" by simp
  have "created_at b \<le> created_at a" using m ain a rb by blast
  then have eq: "created_at a = created_at b" using le by simp
  have ab: "job_id a \<noteq> job_id b" using d by auto
  have bpre: "job_id b \<notin> job_id ` set pre" using d by auto
  from sort_key_head_first [OF s] obtain zs where
    "filter (\<lambda>x. created_at x = created_at r) (filter (\<lambda>r. status r = ''queued'') ?db) = r # zs"
    by blast
  then have "filter ?P ?db = b # zs"
    using rb by (simp only: filter_filter conj_commute)
  moreover have "filter ?P ?db = filter ?P pre @ a # filter ?P (mid @ b # post)"
    using a eq by simp
  ultimately have e: "filter ?P pre @ a # filter ?P (mid @ b # post) = b # zs"
    by simp
  show False
  proof (cases "filter ?P pre")
    case Nil
    then have "a = b" using e by simp
    then show False using ab by simp
  next
    case (Cons x xs)
    then have "x = b" using e by simp
    moreover have "x \<in> set (filter ?P pre)" using Cons by simp
    ultimately have "b \<in> set pre" by simp
    then show False using bpre by blast
  qed
qed

subsection \<open>\<^verbatim>\<open>claim_next_job\<close> takes the oldest queued job\<close>

lemma parse_json_fields_Inr:
  assumes "parse_json_fields loads r = Inr j"
  shows "job_id j = job_id r \<and> job_type j = job_type r \<and> status j = status r \<and>
         created_at j = created_at r \<and> updated_at j = updated_at r \<and>
         started_at j = started_at r \<and> finished_at j = finished_at r \<and>
         requested_by j = requested_by r \<and> error j = error r \<and> attempts j = attempts r \<and>
         max_attempts j = max_attempts r \<and> worker_id j = worker_id r"
  using assms unfolding parse_json_fields_def
  by (auto split: sum.splits)

lemma get_job_found:
  "fetchone jid db = Some r \<Longrightarrow>
   get_job loads jid db =
     (case parse_json_fields loads r of Inl e \<Rightarrow> Inl e | Inr j \<Rightarrow> Inr (Some j))"
  by (simp add: get_job_def)

lemma claim_next_job_selected:
  "select_next_queued db = Some jid \<Longrightarrow>
   claim_next_job loads w now db =
     (get_job loads jid (claim_update now w jid db), claim_update now w jid db)"
  by (simp add: claim_next_job_def claim_selected_def Let_def)

lemma fetchone_claimed:
  assumes d: "distinct (map job_id db)" and r: "r \<in> set db" and q: "status r = ''queued''"
  shows "fetchone (job_id r) (claim_update now w (job_id r) db) =
         Some (r\<lparr>status := ''running'', started_at := Some now, worker_id := Some w,
                 updated_at := now\<rparr>)"
  using fetchone_distinct [OF d r] q by (simp add: fetchone_claim_update)


text \<open>
  Claim C4. In a table with distinct ids that holds a queued job, the select of
  \<^verbatim>\<open>claim_next_job\<close> finds a queued row \<open>r\<close> whose \<^verbatim>\<open>created_at\<close> is least
  among the queued rows; the call marks that row \<^verbatim>\<open>running\<close> for the caller and
  returns it (never "no job", and a job it returns has the id of \<open>r\<close>). If \<open>a\<close> was
  inserted before \<open>b\<close>, \<open>a\<close> is still queued and the creation time of \<open>a\<close> is not
  later than that of \<open>b\<close>, the job found is not \<open>b\<close>; and when the creation times
  never decrease along the table, the job found is the first queued row of the table.
\<close>

theorem claim_next_job_oldest_first:
  assumes d: "distinct (map job_id db)" and q: "\<exists>r \<in> set db. status r = ''queued''"
  shows "\<exists>r. r \<in> set db \<and> status r = ''queued'' \<and>
           (\<forall>q \<in> set db. status q = ''queued'' \<longrightarrow> created_at r \<le> created_at q) \<and>
           select_next_queued db = Some (job_id r) \<and>
           snd (claim_next_job loads w now db) = claim_update now w (job_id r) db \<and>
           fetchone (job_id r) (snd (claim_next_job loads w now db)) =
             Some (r\<lparr>status := ''running'', started_at := Some now, worker_id := Some w,
                     updated_at := now\<rparr>) \<and>
           fst (claim_next_job loads w now db) \<noteq> Inr None \<and>
           (\<forall>j. fst (claim_next_job loads w now db) = Inr (Some j) \<longrightarrow>
              job_id j = job_id r \<and> created_at j = created_at r \<and> status j = ''running'' \<and>
              worker_id j = Some w) \<and>
           (\<forall>pre a mid b post.
              db = pre @ a # mid @ b # post \<and> status a = ''queued'' \<and>
              created_at a \<le> created_at b \<longrightarrow> job_id r \<noteq> job_id b) \<and>
           (sorted (map created_at db) \<longrightarrow> find (\<lambda>x. status x = ''queued'') db = Some r)"
proof -
  from q have "select_next_queued db \<noteq> None"
    by (simp only: select_next_queued_None) blast
  then obtain jid where s: "select_next_queued db = Some jid" by blast
  from select_next_queued_Some [OF s] obtain r where
    j: "job_id r = jid" and r: "r \<in> set db" and rq: "status r = ''queued''" and
    m: "\<forall>q \<in> set db. status q = ''queued'' \<longrightarrow> created_at r \<le> created_at q"
    by blast
  let ?r' = "r\<lparr>status := ''running'', started_at := Some now, worker_id := Some w,
                updated_at := now\<rparr>"
  have sel: "select_next_queued db = Some (job_id r)" using s j by simp
  have c: "claim_next_job loads w now db =
      (get_job loads (job_id r) (claim_update now w (job_id r) db),
       claim_update now w (job_id r) db)"
    by (rule claim_next_job_selected [OF sel])
  have f: "fetchone (job_id r) (claim_update now w (job_id r) db) = Some ?r'"
    by (rule fetchone_claimed [OF d r rq])
  have g: "fst (claim_next_job loads w now db) =
      (case parse_json_fields loads ?r' of Inl e \<Rightarrow> Inl e | Inr j \<Rightarrow> Inr (Some j))"
    by (simp only: c fst_conv get_job_found [OF f])
  have g1: "fst (claim_next_job loads w now db) \<noteq> Inr None"
    by (simp add: g split: sum.splits)
  have g2: "job_id j = job_id r \<and> created_at j = created_at r \<and> status j = ''running'' \<and>
            worker_id j = Some w"
    if "fst (claim_next_job loads w now db) = Inr (Some j)" for j
  proof -
    from that have "parse_json_fields loads ?r' = Inr j"
      by (simp add: g split: sum.splits)
    from parse_json_fields_Inr [OF this] show ?thesis by simp
  qed
  have nl: "job_id r \<noteq> job_id b"
    if "db = pre @ a # mid @ b # post" "status a = ''queued''" "created_at a \<le> created_at b"
    for pre a mid b post
  proof -
    have "distinct (map job_id (pre @ a # mid @ b # post))" using d that(1) by simp
    from select_next_queued_not_later [OF this that(2) that(3)] sel that(1)
    show ?thesis by auto
  qed
  have so: "find (\<lambda>x. status x = ''queued'') db = Some r" if srt: "sorted (map created_at db)"
  proof -
    from select_next_queued_sorted [OF srt] sel
    obtain r0 where r0: "find (\<lambda>x. status x = ''queued'') db = Some r0" "job_id r0 = job_id r"
      by (cases "find (\<lambda>x. status x = ''queued'') db") auto
    then have "r0 \<in> set db" by (auto simp: find_Some_iff)
    then have "r0 = r" by (rule same_job_id [OF d _ r r0(2)])
    then show ?thesis using r0 by simp
  qed
  have s2: "snd (claim_next_job loads w now db) = claim_update now w (job_id r) db"
    by (simp only: c snd_conv)
  have f2: "fetchone (job_id r) (snd (claim_next_job loads w now db)) = Some ?r'"
    by (simp only: s2 f)
  show ?thesis
    using r rq m sel s2 f2 g1 g2 nl so by blast
qed

theorem claim_next_job_oldest_first_witness:
  "distinct (map job_id example_table) \<and> status (example_row ''j2'' 11) = ''queued'' \<and>
   example_row ''j2'' 11 \<in> set example_table \<and>
   select_next_queued example_table = Some ''j1'' \<and>
   map status (snd (claim_next_job json_loads ''worker-1'' 100 example_table)) =
     [''running'', ''queued'']"
proof -
  have d: "distinct (map job_id example_table)"
    by (simp add: example_table_def example_row_def new_row_def)
  have q: "status (example_row ''j2'' 11) = ''queued''"
    by (simp add: example_row_def new_row_def)
  have i: "example_row ''j2'' 11 \<in> set example_table"
    by (simp add: example_table_def)
  have e: "\<exists>r \<in> set example_table. status r = ''queued''" using q i by blast
  from claim_next_job_oldest_first [OF d e, of json_loads "''worker-1''" 100]
  obtain r where r: "r \<in> set example_table"
    and s: "select_next_queued example_table = Some (job_id r)"
    and u: "snd (claim_next_job json_loads ''worker-1'' 100 example_table) =
              claim_update 100 ''worker-1'' (job_id r) example_table"
    and n: "\<forall>pre a mid b post.
              example_table = pre @ a # mid @ b # post \<and> status a = ''queued'' \<and>
              created_at a \<le> created_at b \<longrightarrow> job_id r \<noteq> job_id b"
    by blast
  have "example_table = [] @ example_row ''j1'' 10 # [] @ example_row ''j2'' 11 # [] \<and>
        status (example_row ''j1'' 10) = ''queued'' \<and>
        created_at (example_row ''j1'' 10) \<le> created_at (example_row ''j2'' 11)"
    by (simp add: example_table_def example_row_def new_row_def)
  with n have "job_id r \<noteq> job_id (example_row ''j2'' 11)" by blast
  then have "r = example_row ''j1'' 10" using r by (auto simp: example_table_def)
  then have j: "job_id r = ''j1''" by (simp add: example_row_def new_row_def)
  have "map status (claim_update 100 ''worker-1'' ''j1'' example_table) = [''running'', ''queued'']"
    by (simp add: claim_update_def example_table_def example_row_def new_row_def)
  then show ?thesis using d q i s u j by simp
qed


subsection \<open>Every claim restarts the stale-timeout clock\<close>

lemma requeue_stale_jobs_boundary:
  assumes "fetchone k db = Some r" and "status r = ''running''" and "started_at r = Some T"
  shows "(now \<le> T + of_int timeout \<longrightarrow>
            fetchone k (requeue_stale_jobs timeout now now' db) = Some r) \<and>
         (T + of_int timeout < now \<longrightarrow>
            fetchone k (requeue_stale_jobs timeout now now' db) =
              Some (r\<lparr>status := ''queued'', worker_id := None, updated_at := now'\<rparr>))"
  using assms by (auto simp: fetchone_requeue_stale_jobs is_stale_def)

lemma requeued_table_eq:
  "requeued_table =
     [(example_row ''j1'' 10)\<lparr>status := ''queued'', started_at := Some 100,
         worker_id := None, updated_at := 702\<rparr>, example_row ''j2'' 11]"
  by (simp add: requeued_table_def claimed_table_eq requeue_stale_jobs_def is_stale_def
      example_row_def new_row_def)


text \<open>
  Claim C9. When \<^verbatim>\<open>claim_next_job\<close> claims the job \<open>jid\<close> at time \<open>now\<close>, the row,
  whatever \<^verbatim>\<open>started_at\<close>, \<^verbatim>\<open>worker_id\<close> and \<^verbatim>\<open>updated_at\<close> it had before, has
  \<^verbatim>\<open>started_at\<close> and \<^verbatim>\<open>updated_at\<close> equal to \<open>now\<close> and the caller as
  \<^verbatim>\<open>worker_id\<close>. A later \<^verbatim>\<open>requeue_stale_jobs\<close> measures from this claim: it leaves
  the job running up to \<open>now + timeout\<close> and requeues it after that.
\<close>

theorem claim_restarts_stale_clock:
  assumes d: "distinct (map job_id db)" and s: "select_next_queued db = Some jid"
  shows "\<exists>r. fetchone jid db = Some r \<and> status r = ''queued'' \<and>
           fetchone jid (snd (claim_next_job loads w now db)) =
             Some (r\<lparr>status := ''running'', started_at := Some now, worker_id := Some w,
                     updated_at := now\<rparr>) \<and>
           (\<forall>timeout t t'. t \<le> now + of_int timeout \<longrightarrow>
              fetchone jid (requeue_stale_jobs timeout t t' (snd (claim_next_job loads w now db))) =
                Some (r\<lparr>status := ''running'', started_at := Some now, worker_id := Some w,
                        updated_at := now\<rparr>)) \<and>
           (\<forall>timeout t t'. now + of_int timeout < t \<longrightarrow>
              fetchone jid (requeue_stale_jobs timeout t t' (snd (claim_next_job loads w now db))) =
                Some (r\<lparr>status := ''queued'', started_at := Some now, worker_id := None,
                        updated_at := t'\<rparr>))"
proof -
  from select_next_queued_Some [OF s] obtain r where
    j: "job_id r = jid" and r: "r \<in> set db" and rq: "status r = ''queued''"
    by blast
  let ?r' = "r\<lparr>status := ''running'', started_at := Some now, worker_id := Some w,
                updated_at := now\<rparr>"
  let ?db' = "snd (claim_next_job loads w now db)"
  have f0: "fetchone jid db = Some r" using fetchone_distinct [OF d r] j by simp
  have "?db' = claim_update now w jid db"
    by (simp only: claim_next_job_selected [OF s] snd_conv)
  then have f: "fetchone jid ?db' = Some ?r'"
    using fetchone_claimed [OF d r rq, of now w] j by simp
  have st: "status ?r' = ''running''" "started_at ?r' = Some now" by simp_all
  have a: "fetchone jid (requeue_stale_jobs timeout t t' ?db') = Some ?r'"
    if "t \<le> now + of_int timeout" for timeout t t'
    using requeue_stale_jobs_boundary [OF f st] that by blast
  have b: "fetchone jid (requeue_stale_jobs timeout t t' ?db') =
             Some (r\<lparr>status := ''queued'', started_at := Some now, worker_id := None,
                     updated_at := t'\<rparr>)"
    if "now + of_int timeout < t" for timeout t t'
    using requeue_stale_jobs_boundary [OF f st] that by simp
  show ?thesis using f0 rq f a b by blast
qed

theorem claim_restarts_stale_clock_witness:
  "distinct (map job_id requeued_table) \<and> select_next_queued requeued_table = Some ''j1'' \<and>
   map_option started_at (fetchone ''j1'' requeued_table) = Some (Some 100) \<and>
   map_option started_at
     (fetchone ''j1'' (snd (claim_next_job json_loads ''worker-2'' 800 requeued_table))) =
     Some (Some 800) \<and>
   map_option status
     (fetchone ''j1'' (requeue_stale_jobs 600 1300 1300
        (snd (claim_next_job json_loads ''worker-2'' 800 requeued_table)))) = Some ''running''"
proof -
  have d: "distinct (map job_id requeued_table)"
    by (simp add: requeued_table_eq example_row_def new_row_def)
  have s: "select_next_queued requeued_table = Some ''j1''"
    by (simp add: requeued_table_eq select_next_queued_def example_row_def new_row_def)
  have o: "map_option started_at (fetchone ''j1'' requeued_table) = Some (Some 100)"
    by (simp add: requeued_table_eq fetchone_def example_row_def new_row_def)
  from claim_restarts_stale_clock [OF d s, of json_loads "''worker-2''" 800]
  obtain r where
    f: "fetchone ''j1'' (snd (claim_next_job json_loads ''worker-2'' 800 requeued_table)) =
          Some (r\<lparr>status := ''running'', started_at := Some 800, worker_id := Some ''worker-2'',
                  updated_at := 800\<rparr>)" and
    k: "\<forall>timeout t t'. t \<le> 800 + of_int timeout \<longrightarrow>
          fetchone ''j1'' (requeue_stale_jobs timeout t t'
             (snd (claim_next_job json_loads ''worker-2'' 800 requeued_table))) =
            Some (r\<lparr>status := ''running'', started_at := Some 800, worker_id := Some ''worker-2'',
                    updated_at := 800\<rparr>)"
    by blast
  have "(1300 :: real) \<le> 800 + of_int 600" by simp
  with k have "fetchone ''j1'' (requeue_stale_jobs 600 1300 1300
             (snd (claim_next_job json_loads ''worker-2'' 800 requeued_table))) =
            Some (r\<lparr>status := ''running'', started_at := Some 800, worker_id := Some ''worker-2'',
                    updated_at := 800\<rparr>)"
    by blast
  then show ?thesis using d s o f by simp
qed


subsection \<open>Two callers racing for one job\<close>

lemma json_loads_empty_object: "json_loads ''{}'' = Some (JObj [])"
  by (simp add: json_loads_def skip_ws_def is_ws_def)


text \<open>
  Claim C1, on the code: with one queued job in the table, two callers both run the
  select and both find \<^verbatim>\<open>j1\<close>. The update of the first changes the row; the update of
  the second changes nothing, and the second call still returns the job, which
  \<^verbatim>\<open>worker-A\<close> holds.
\<close>

theorem claim_race_both_callers_get_the_job:
  "select_next_queued single_job_table = Some ''j1'' \<and>
   map status (snd (claim_selected json_loads ''worker-A'' 100 ''j1'' single_job_table)) =
     [''running''] \<and>
   map_sum id (map_option (\<lambda>j. (job_id j, worker_id j)))
     (fst (claim_selected json_loads ''worker-A'' 100 ''j1'' single_job_table)) =
     Inr (Some (''j1'', Some ''worker-A'')) \<and>
   select_next_queued (snd (claim_selected json_loads ''worker-A'' 100 ''j1'' single_job_table)) =
     None \<and>
   snd (claim_selected json_loads ''worker-B'' 101 ''j1''
          (snd (claim_selected json_loads ''worker-A'' 100 ''j1'' single_job_table))) =
     snd (claim_selected json_loads ''worker-A'' 100 ''j1'' single_job_table) \<and>
   map_sum id (map_option (\<lambda>j. (job_id j, worker_id j)))
     (fst (claim_selected json_loads ''worker-B'' 101 ''j1''
            (snd (claim_selected json_loads ''worker-A'' 100 ''j1'' single_job_table)))) =
     Inr (Some (''j1'', Some ''worker-A''))"
  by (simp add: single_job_table_def example_row_def new_row_def select_next_queued_def
      claim_selected_def claim_update_def Let_def get_job_def fetchone_def
      parse_json_fields_def parse_json_field_def json_loads_empty_object)

subsection \<open>\<^verbatim>\<open>list_jobs\<close>: filters, order and limit\<close>









subsection \<open>The payload survives \<^verbatim>\<open>enqueue_job\<close> and \<^verbatim>\<open>get_job\<close>\<close>


lemma json_round_trip_n3:
  "json_loads (json_dumps (JObj [(''n'', JInt 3)])) = Some (JObj [(''n'', JInt 3)])"
  by code_simp





subsection \<open>The retry policy of \<^verbatim>\<open>process_job\<close>\<close>

lemma decodes_parse:
  assumes "decodes loads (Some (payload r))" "decodes loads (result r)" "decodes loads (progress r)"
  shows "\<exists>j. parse_json_fields loads r = Inr j"
  using assms by (auto simp: decodes_def parse_json_fields_def split: sum.splits)

lemma requeue_stale_jobs_not_running:
  "status r \<noteq> ''running'' \<Longrightarrow> requeue_stale_jobs tt a b [r] = [r]"
  by (simp add: requeue_stale_jobs_def is_stale_def)

lemma select_single_queued: "status r = ''queued'' \<Longrightarrow> select_next_queued [r] = Some (job_id r)"
  by (simp add: select_next_queued_def)

lemma select_single_not_queued: "status r \<noteq> ''queued'' \<Longrightarrow> select_next_queued [r] = None"
  by (simp add: select_next_queued_def)

lemma claim_single_queued:
  assumes "retrying loads jid m i r"
  shows "\<exists>job. claim_next_job loads w tc [r] =
           (Inr (Some job),
            [r\<lparr>status := ''running'', started_at := Some tc, worker_id := Some w,
                updated_at := tc\<rparr>]) \<and>
           job_id job = jid \<and> job_type job = ''generate_amazon_content'' \<and>
           attempts job = i \<and> max_attempts job = m"
proof -
  let ?r1 = "r\<lparr>status := ''running'', started_at := Some tc, worker_id := Some w,
               updated_at := tc\<rparr>"
  have q: "status r = ''queued''" and j: "job_id r = jid"
    using assms by (simp_all add: retrying_def)
  have "\<exists>job. parse_json_fields loads ?r1 = Inr job"
    using assms by (intro decodes_parse) (simp_all add: retrying_def)
  then obtain job where p: "parse_json_fields loads ?r1 = Inr job" by blast
  have u: "claim_update tc w jid [r] = [?r1]"
    using q j by (simp add: claim_update_def)
  have f: "fetchone jid [?r1] = Some ?r1" using j by (simp add: fetchone_def)
  have "claim_next_job loads w tc [r] = (Inr (Some job), [?r1])"
    using select_single_queued [OF q] j
    by (simp add: claim_next_job_def claim_selected_def Let_def u get_job_found [OF f] p)
  moreover have "job_id job = jid \<and> job_type job = ''generate_amazon_content'' \<and>
           attempts job = i \<and> max_attempts job = m"
    using parse_json_fields_Inr [OF p] assms by (simp add: retrying_def)
  ultimately show ?thesis by blast
qed

lemma process_job_raised_single:
  assumes "job_type job = ''generate_amazon_content''" and "job_id r = job_id job"
  shows "process_job dumps job (Raised e) t1 t2 [r] =
     [r\<lparr>updated_at := t2,
         status := (if attempts job + 1 \<ge> max_attempts job then ''failed'' else ''queued''),
         finished_at := (if attempts job + 1 \<ge> max_attempts job then Some t2 else finished_at r),
         error := Some (''Worker exception: '' @ e),
         progress := Some (dumps (JObj [(''stage'', JStr ''starting'')])),
         attempts := attempts job + 1\<rparr>]"
  using assms
  by (simp add: process_job_def on_exception_def update_job_status_def set_clause_def Let_def)

lemma worker_pass_raised_single:
  assumes r: "retrying loads jid m i r" and st: "decodes loads (Some (dumps stage_starting))"
  shows "\<exists>r'. worker_pass loads dumps w tt (Raised e) t (polls, [r]) = (True, 0, [r']) \<and>
           job_id r' = jid \<and> attempts r' = i + 1 \<and> max_attempts r' = m \<and>
           (if i + 1 \<ge> m then status r' = ''failed'' else retrying loads jid m (i + 1) r')"
proof -
  let ?r1 = "r\<lparr>status := ''running'', started_at := Some (t_claim t), worker_id := Some w,
               updated_at := t_claim t\<rparr>"
  have q: "status r \<noteq> ''running''" using r by (simp add: retrying_def)
  from claim_single_queued [OF r, of w "t_claim t"] obtain job where
    c: "claim_next_job loads w (t_claim t) [r] = (Inr (Some job), [?r1])" and
    j: "job_id job = jid" "job_type job = ''generate_amazon_content''"
       "attempts job = i" "max_attempts job = m"
    by blast
  have jr: "job_id ?r1 = job_id job" using r j by (simp add: retrying_def)
  note p = process_job_raised_single [OF j(2) jr, of dumps e "t_first t" "t_last t"]
  have w: "worker_pass loads dumps w tt (Raised e) t (polls, [r]) =
      (True, 0, process_job dumps job (Raised e) (t_first t) (t_last t) [?r1])"
    by (simp add: worker_pass_def Let_def requeue_stale_jobs_not_running [OF q] c)
  show ?thesis
    using r st j by (simp add: w p retrying_def stage_starting_def)
qed

lemma worker_pass_failed_single:
  assumes "status r = ''failed''"
  shows "worker_pass loads dumps w tt out t (polls, [r]) = (False, polls + 1, [r])"
proof -
  have q: "status r \<noteq> ''running''" "status r \<noteq> ''queued''" using assms by simp_all
  show ?thesis
    by (simp add: worker_pass_def Let_def requeue_stale_jobs_not_running [OF q(1)]
        claim_next_job_def select_single_not_queued [OF q(2)])
qed

lemma worker_loop_failed_single:
  "status r = ''failed'' \<Longrightarrow>
   worker_loop loads dumps w tt out ts (polls, [r]) = (0, polls + length ts, [r])"
  by (induction ts arbitrary: polls) (simp_all add: worker_pass_failed_single)

lemma worker_loop_raised_single:
  assumes st: "decodes loads (Some (dumps stage_starting))"
  shows "retrying loads jid m i r \<Longrightarrow>
     \<exists>polls' r'. worker_loop loads dumps w tt (Raised e) ts (polls, [r]) =
          (min (length ts) (nat (max 1 (m - i))), polls', [r']) \<and> job_id r' = jid \<and>
        attempts r' = i + int (min (length ts) (nat (max 1 (m - i)))) \<and>
        status r' = (if nat (max 1 (m - i)) \<le> length ts then ''failed'' else ''queued'')"
proof (induction ts arbitrary: i r polls)
  case Nil
  then show ?case by (simp add: retrying_def)
next
  case (Cons t ts)
  from worker_pass_raised_single [where dumps = dumps and w = w and tt = tt and e = e and t = t
      and polls = polls, OF Cons.prems st] obtain r' where
    p: "worker_pass loads dumps w tt (Raised e) t (polls, [r]) = (True, 0, [r'])" and
    a: "job_id r' = jid" "attempts r' = i + 1" and
    c: "if i + 1 \<ge> m then status r' = ''failed'' else retrying loads jid m (i + 1) r'"
    by blast
  show ?case
  proof (cases "i + 1 \<ge> m")
    case True
    then have f: "status r' = ''failed''" using c by simp
    have k: "nat (max 1 (m - i)) = 1" using True by simp
    show ?thesis
      using a f by (simp add: p worker_loop_failed_single [OF f] k)
  next
    case False
    then have q: "retrying loads jid m (i + 1) r'" using c by simp
    from Cons.IH [OF q, of 0] obtain polls' r'' where
      l: "worker_loop loads dumps w tt (Raised e) ts (0, [r']) =
            (min (length ts) (nat (max 1 (m - (i + 1)))), polls', [r''])" and
      b: "job_id r'' = jid"
         "attempts r'' = i + 1 + int (min (length ts) (nat (max 1 (m - (i + 1)))))"
         "status r'' = (if nat (max 1 (m - (i + 1))) \<le> length ts then ''failed'' else ''queued'')"
      by blast
    have k: "nat (max 1 (m - i)) = Suc (nat (max 1 (m - (i + 1))))" using False by simp
    show ?thesis
      using b by (simp add: p l k)
  qed
qed

lemma process_job_raised_fetch:
  assumes t: "job_type job = ''generate_amazon_content''" and f: "fetchone (job_id job) db = Some r"
  shows "fetchone (job_id job) (process_job dumps job (Raised e) t1 t2 db) =
     Some (r\<lparr>updated_at := t2,
         status := (if attempts job + 1 \<ge> max_attempts job then ''failed'' else ''queued''),
         finished_at := (if attempts job + 1 \<ge> max_attempts job then Some t2 else finished_at r),
         error := Some (''Worker exception: '' @ e),
         progress := Some (dumps (JObj [(''stage'', JStr ''starting'')])),
         attempts := attempts job + 1\<rparr>)"
proof -
  have k: "job_id r = job_id job" using f by (rule fetchone_job_id)
  show ?thesis
    using t f k
    by (simp add: process_job_def on_exception_def Let_def fetchone_update_job_status
        job_id_set_clause set_clause_def)
qed

lemma process_job_exited_fetch:
  assumes t: "job_type job = ''generate_amazon_content''" and f: "fetchone (job_id job) db = Some r"
    and rc: "returncode \<noteq> 0"
  shows "fetchone (job_id job) (process_job dumps job (Exited returncode out err) t1 t2 db) =
     Some (r\<lparr>updated_at := t2, status := ''failed'', finished_at := Some t2,
         error := Some (if err \<noteq> [] then err else ''Script failed''),
         progress := Some (dumps (JObj [(''stage'', JStr ''starting'')]))\<rparr>)"
proof -
  have k: "job_id r = job_id job" using f by (rule fetchone_job_id)
  show ?thesis
    using t f k rc
    by (simp add: process_job_def Let_def fetchone_update_job_status
        job_id_set_clause set_clause_def)
qed

lemma retrying_new_row:
  "decodes loads (Some text) \<Longrightarrow>
   retrying loads jid m 0 (new_row jid ''generate_amazon_content'' now text req m)"
  by (simp add: retrying_def new_row_def decodes_def parse_json_field_def)

lemma json_dumps_stage_starting:
  "json_loads (json_dumps stage_starting) = Some stage_starting \<and> json_dumps stage_starting \<noteq> []"
  unfolding stage_starting_def by code_simp

lemma decodes_round_trip: "loads (dumps d) = Some d \<Longrightarrow> decodes loads (Some (dumps d))"
  by (simp add: decodes_def parse_json_field_def)

lemma decodes_examples:
  "decodes json_loads (Some (json_dumps (JObj [(''n'', JInt 3)])))"
  "decodes json_loads (Some (json_dumps stage_starting))"
  using json_round_trip_n3 json_dumps_stage_starting by (blast intro: decodes_round_trip)+

lemma worker_pass_exited_example:
  "worker_pass json_loads json_dumps ''worker-1'' 600 (Exited 1 [] ''boom'') example_readings
     (0, example_table) =
   (True, 0,
    [(example_row ''j1'' 10)\<lparr>status := ''failed'', started_at := Some 100,
        worker_id := Some ''worker-1'', updated_at := 102, finished_at := Some 102,
        error := Some ''boom'', progress := Some (json_dumps stage_starting)\<rparr>,
     example_row ''j2'' 11])"
  by (simp add: worker_pass_def Let_def example_readings_def example_table_def example_row_def
      new_row_def requeue_stale_jobs_def is_stale_def claim_next_job_def select_next_queued_def
      claim_selected_def claim_update_def get_job_def fetchone_def parse_json_fields_def
      parse_json_field_def json_loads_empty_object process_job_def update_job_status_def
      set_clause_def stage_starting_def)

lemma worker_loop_zero_bound_example:
  "fst (worker_loop json_loads json_dumps ''worker-1'' 600 (Raised ''boom'')
          [example_readings, example_readings]
          (0, [new_row ''j0'' ''generate_amazon_content'' 10 (json_dumps (JObj [])) None 0])) = 1"
proof -
  have "json_loads (json_dumps (JObj [])) = Some (JObj [])" by code_simp
  then have "decodes json_loads (Some (json_dumps (JObj [])))" by (rule decodes_round_trip)
  from worker_loop_raised_single [where loads = json_loads and dumps = json_dumps and
      jid = "''j0''" and m = 0 and i = 0 and w = "''worker-1''" and tt = 600 and e = "''boom''"
      and ts = "[example_readings, example_readings]" and polls = 0,
      OF decodes_examples(2) retrying_new_row [OF this, where now = 10 and req = None]]
  obtain polls' r' where
    "worker_loop json_loads json_dumps ''worker-1'' 600 (Raised ''boom'')
       [example_readings, example_readings]
       (0, [new_row ''j0'' ''generate_amazon_content'' 10 (json_dumps (JObj [])) None 0]) =
     (Suc 0, polls', [r'])"
    by (auto simp del: worker_loop.simps json_dumps.simps)
  then show ?thesis by (simp del: worker_loop.simps json_dumps.simps)
qed


text \<open>
  Claim C2, amended. When the handler of a claimed job raises, \<^verbatim>\<open>process_job\<close> writes
  the attempts the worker read at the claim plus one, and the status \<^verbatim>\<open>failed\<close> (with
  \<^verbatim>\<open>finished_at\<close>) if that count has reached \<^verbatim>\<open>max_attempts\<close>, \<^verbatim>\<open>queued\<close> otherwise.
  When the script returns a non-zero exit code the job is marked \<^verbatim>\<open>failed\<close> at once and
  its attempts are left as they are. A worker looping over a table that holds one fresh
  job, with a handler that raises every time, runs the handler on each pass until it has
  run \<open>max 1 max_attempts\<close> times, which is \<^verbatim>\<open>max_attempts\<close> times when that is at least
  one; from then on the job is \<^verbatim>\<open>failed\<close> and is not run again. The documents involved
  are assumed to decode.
\<close>

theorem worker_retry_policy:
  assumes p: "decodes loads (Some (dumps P))" and st: "decodes loads (Some (dumps stage_starting))"
  shows "(\<forall>job db r e t1 t2.
            job_type job = ''generate_amazon_content'' \<and> fetchone (job_id job) db = Some r \<longrightarrow>
            (\<exists>r'. fetchone (job_id job) (process_job dumps job (Raised e) t1 t2 db) = Some r' \<and>
                  attempts r' = attempts job + 1 \<and>
                  status r' =
                    (if attempts job + 1 \<ge> max_attempts job then ''failed'' else ''queued'') \<and>
                  finished_at r' =
                    (if attempts job + 1 \<ge> max_attempts job then Some t2 else finished_at r) \<and>
                  error r' = Some (''Worker exception: '' @ e))) \<and>
         (\<forall>job db r returncode out err t1 t2.
            job_type job = ''generate_amazon_content'' \<and> fetchone (job_id job) db = Some r \<and>
            returncode \<noteq> 0 \<longrightarrow>
            (\<exists>r'. fetchone (job_id job)
                    (process_job dumps job (Exited returncode out err) t1 t2 db) = Some r' \<and>
                  attempts r' = attempts r \<and> status r' = ''failed'' \<and>
                  finished_at r' = Some t2 \<and>
                  error r' = Some (if err \<noteq> [] then err else ''Script failed''))) \<and>
         (\<forall>ts. \<exists>polls r'.
            worker_loop loads dumps w tt (Raised e) ts
                (0, [new_row jid ''generate_amazon_content'' now (dumps P) req m]) =
              (min (length ts) (nat (max 1 m)), polls, [r']) \<and>
            job_id r' = jid \<and> attempts r' = int (min (length ts) (nat (max 1 m))) \<and>
            status r' = (if nat (max 1 m) \<le> length ts then ''failed'' else ''queued''))"
proof -
  have a: "\<exists>r'. fetchone (job_id job) (process_job dumps job (Raised e) t1 t2 db) = Some r' \<and>
                  attempts r' = attempts job + 1 \<and>
                  status r' =
                    (if attempts job + 1 \<ge> max_attempts job then ''failed'' else ''queued'') \<and>
                  finished_at r' =
                    (if attempts job + 1 \<ge> max_attempts job then Some t2 else finished_at r) \<and>
                  error r' = Some (''Worker exception: '' @ e)"
    if "job_type job = ''generate_amazon_content''" "fetchone (job_id job) db = Some r"
    for job :: job_dict and db r e t1 t2
    by (simp add: process_job_raised_fetch [OF that])
  have b: "\<exists>r'. fetchone (job_id job)
                    (process_job dumps job (Exited returncode out err) t1 t2 db) = Some r' \<and>
                  attempts r' = attempts r \<and> status r' = ''failed'' \<and>
                  finished_at r' = Some t2 \<and>
                  error r' = Some (if err \<noteq> [] then err else ''Script failed'')"
    if "job_type job = ''generate_amazon_content''" "fetchone (job_id job) db = Some r"
       "returncode \<noteq> 0"
    for job :: job_dict and db r returncode out err t1 t2
    by (simp add: process_job_exited_fetch [OF that])
  have c: "\<exists>polls r'.
            worker_loop loads dumps w tt (Raised e) ts
                (0, [new_row jid ''generate_amazon_content'' now (dumps P) req m]) =
              (min (length ts) (nat (max 1 m)), polls, [r']) \<and>
            job_id r' = jid \<and> attempts r' = int (min (length ts) (nat (max 1 m))) \<and>
            status r' = (if nat (max 1 m) \<le> length ts then ''failed'' else ''queued'')" for ts
    using worker_loop_raised_single [where loads = loads and dumps = dumps and jid = jid and
        m = m and i = 0 and w = w and tt = tt and e = e and ts = ts and polls = 0,
        OF st retrying_new_row [OF p]]
    by simp
  show ?thesis using a b c by blast
qed

theorem worker_retry_policy_witness:
  "decodes json_loads (Some (json_dumps (JObj [(''n'', JInt 3)]))) \<and>
   decodes json_loads (Some (json_dumps stage_starting)) \<and>
   (\<exists>polls r'.
      worker_loop json_loads json_dumps ''worker-1'' 600 (Raised ''boom'')
          [example_readings, example_readings, example_readings]
          (0, [new_row ''j1'' ''generate_amazon_content'' 10 (json_dumps (JObj [(''n'', JInt 3)]))
                 None 2]) = (2, polls, [r']) \<and>
      job_id r' = ''j1'' \<and> attempts r' = 2 \<and> status r' = ''failed'')"
proof -
  note t = worker_retry_policy [where loads = json_loads and dumps = json_dumps and
      P = "JObj [(''n'', JInt 3)]" and w = "''worker-1''" and tt = 600 and e = "''boom''" and
      jid = "''j1''" and now = 10 and req = None and m = 2, OF decodes_examples]
  then have "\<exists>polls r'.
      worker_loop json_loads json_dumps ''worker-1'' 600 (Raised ''boom'')
          [example_readings, example_readings, example_readings]
          (0, [new_row ''j1'' ''generate_amazon_content'' 10 (json_dumps (JObj [(''n'', JInt 3)]))
                 None 2]) =
        (min (length [example_readings, example_readings, example_readings]) (nat (max 1 2)),
         polls, [r']) \<and>
      job_id r' = ''j1'' \<and>
      attempts r' =
        int (min (length [example_readings, example_readings, example_readings]) (nat (max 1 2))) \<and>
      status r' =
        (if nat (max 1 2) \<le> length [example_readings, example_readings, example_readings]
         then ''failed'' else ''queued'')"
    by blast
  then show ?thesis
    using decodes_examples
    by (simp add: numeral_2_eq_2 del: worker_loop.simps json_dumps.simps)
qed


text \<open>
  The claim as written treats a returned error like an exception. A job with no attempts
  of three whose script exits with code 1 is \<^verbatim>\<open>failed\<close> after one pass, its attempts
  still 0. And with \<^verbatim>\<open>max_attempts\<close> 0 a handler that raises runs once, not zero times.
\<close>

theorem retry_policy_counterexample:
  "fst (worker_pass json_loads json_dumps ''worker-1'' 600 (Exited 1 [] ''boom'') example_readings
     (0, example_table)) = True \<and>
   map status (snd (snd (worker_pass json_loads json_dumps ''worker-1'' 600 (Exited 1 [] ''boom'')
     example_readings (0, example_table)))) = [''failed'', ''queued''] \<and>
   map attempts (snd (snd (worker_pass json_loads json_dumps ''worker-1'' 600
     (Exited 1 [] ''boom'') example_readings (0, example_table)))) = [0, 0] \<and>
   map max_attempts (snd (snd (worker_pass json_loads json_dumps ''worker-1'' 600
     (Exited 1 [] ''boom'') example_readings (0, example_table)))) = [3, 3] \<and>
   fst (worker_loop json_loads json_dumps ''worker-1'' 600 (Raised ''boom'')
          [example_readings, example_readings]
          (0, [new_row ''j0'' ''generate_amazon_content'' 10 (json_dumps (JObj [])) None 0])) = 1"
  using worker_loop_zero_bound_example
  by (simp add: worker_pass_exited_example example_row_def new_row_def
      del: worker_loop.simps json_dumps.simps)


text \<open>
  \<^verbatim>\<open>update_job_status\<close> has no parameter for \<^verbatim>\<open>worker_id\<close>, so the requeue after an
  exception leaves the column as the claim set it.
\<close>

lemma requeue_after_exception_keeps_worker_id:
  assumes "job_type job = ''generate_amazon_content''" and "fetchone (job_id job) db = Some r"
  shows "map_option worker_id (fetchone (job_id job) (process_job dumps job (Raised e) t1 t2 db)) =
         Some (worker_id r)"
  by (simp add: process_job_raised_fetch [OF assms])

subsection \<open>What every reachable state satisfies\<close>

lemma process_job_two_updates:
  "process_job dumps job out t1 t2 db = worker_last dumps job out t2 (worker_first dumps job t1 db)"
  by (simp add: process_job_def worker_first_def worker_last_def Let_def)

text \<open>A statement that rewrites rows and keeps their ids.\<close>

lemma store_inv_rewrite:
  assumes i: "store_inv s"
    and id: "\<And>r. job_id (g r) = job_id r"
    and row: "\<And>r wg wn. r \<in> set (table s) \<Longrightarrow> wg = (job_id r \<in> was_running s) \<Longrightarrow>
                 row_inv wg wn r \<Longrightarrow>
                 row_inv (wg \<or> status (g r) = ''running'')
                         (wn \<or> status (g r) = ''succeeded'' \<or> status (g r) = ''failed'') (g r)"
  shows "store_inv (observe (map g (table s)) s)"
proof -
  let ?s' = "observe (map g (table s)) s"
  have ids: "map job_id (map g (table s)) = map job_id (table s)" by (simp add: id)
  have d: "distinct (map job_id (table s))" using i by (simp add: store_inv_def)
  have same: "r2 = r" if "r \<in> set (table s)" "r2 \<in> set (table s)" "job_id (g r2) = job_id r" for r r2
    using same_job_id [OF d that(2) that(1)] that(3) by (simp add: id)
  have mem: "(job_id r \<in> job_id ` {x \<in> g ` set (table s). Q x}) = Q (g r)"
    if r: "r \<in> set (table s)" for r Q
  proof
    assume "job_id r \<in> job_id ` {x \<in> g ` set (table s). Q x}"
    then obtain x where x: "x \<in> g ` set (table s)" "Q x" "job_id r = job_id x" by blast
    from x(1) obtain r2 where r2: "r2 \<in> set (table s)" "x = g r2" by blast
    have "job_id (g r2) = job_id r" using x(3) r2(2) by simp
    from same [OF r r2(1) this] show "Q (g r)" using x(2) r2(2) by simp
  next
    assume "Q (g r)"
    moreover have "g r \<in> g ` set (table s)" using r by simp
    moreover have "job_id r = job_id (g r)" by (simp add: id)
    ultimately show "job_id r \<in> job_id ` {x \<in> g ` set (table s). Q x}" by blast
  qed
  have wg: "(job_id r \<in> was_running ?s') =
              (job_id r \<in> was_running s \<or> status (g r) = ''running'')"
    if "r \<in> set (table s)" for r
    by (simp add: observe_def mem [OF that])
  have wn: "(job_id r \<in> was_finished ?s') =
              (job_id r \<in> was_finished s \<or> status (g r) = ''succeeded'' \<or> status (g r) = ''failed'')"
    if "r \<in> set (table s)" for r
    by (simp add: observe_def mem [OF that])
  have rows: "row_inv (job_id r' \<in> was_running ?s') (job_id r' \<in> was_finished ?s') r'"
    if "r' \<in> set (table ?s')" for r'
  proof -
    from that obtain r where r: "r \<in> set (table s)" and e: "r' = g r"
      by (auto simp: observe_def)
    have "row_inv (job_id r \<in> was_running s) (job_id r \<in> was_finished s) r"
      using i r by (simp add: store_inv_def)
    from row [OF r refl this] show ?thesis
      by (simp only: e id wg [OF r] wn [OF r])
  qed
  have t: "table ?s' = map g (table s)" by (simp add: observe_def)
  have ids_set: "job_id ` set (table ?s') = job_id ` set (table s)"
    by (simp add: t image_image id)
  have "was_running s \<subseteq> job_id ` set (table s)" "was_finished s \<subseteq> job_id ` set (table s)"
    using i by (simp_all add: store_inv_def)
  moreover have "job_id ` {x \<in> set (table ?s'). Q x} \<subseteq> job_id ` set (table ?s')" for Q
    by blast
  ultimately have sub: "was_running ?s' \<subseteq> job_id ` set (table ?s')"
            "was_finished ?s' \<subseteq> job_id ` set (table ?s')"
    unfolding ids_set by (simp_all add: observe_def t)
  have h: "\<forall>h \<in> held ?s'. job_id (snd (snd h)) \<in> was_running ?s'"
    using i by (auto simp: store_inv_def observe_def)
  have d': "distinct (map job_id (table ?s'))" using d by (simp only: t ids)
  show ?thesis
    unfolding store_inv_def using rows sub h d' by blast
qed

lemma row_inv_unchanged:
  "row_inv wg wn r \<Longrightarrow>
   row_inv (wg \<or> status r = ''running'') (wn \<or> status r = ''succeeded'' \<or> status r = ''failed'') r"
  by (auto simp: row_inv_def)

lemma row_inv_set_clause:
  assumes "row_inv True wn r"
    and "st = ''queued'' \<or> st = ''running'' \<or> st = ''succeeded'' \<or> st = ''failed''"
  shows "row_inv (True \<or> status (set_clause dumps now st res err prog att r) = ''running'')
           (wn \<or> status (set_clause dumps now st res err prog att r) = ''succeeded'' \<or>
            status (set_clause dumps now st res err prog att r) = ''failed'')
           (set_clause dumps now st res err prog att r)"
  using assms by (auto simp: row_inv_def set_clause_def Let_def split: option.splits)

lemma store_inv_update_job_status:
  assumes i: "store_inv s" and h: "jid \<in> was_running s"
    and st: "st = ''queued'' \<or> st = ''running'' \<or> st = ''succeeded'' \<or> st = ''failed''"
  shows "store_inv (observe (update_job_status dumps now jid st res err prog att (table s)) s)"
  unfolding update_job_status_def
proof (rule store_inv_rewrite [OF i])
  fix r
  show "job_id (if job_id r = jid then set_clause dumps now st res err prog att r else r) = job_id r"
    by (simp add: job_id_set_clause)
next
  fix r wg wn
  assume r: "r \<in> set (table s)" and w: "wg = (job_id r \<in> was_running s)" and v: "row_inv wg wn r"
  show "row_inv
          (wg \<or> status (if job_id r = jid then set_clause dumps now st res err prog att r else r) =
             ''running'')
          (wn \<or> status (if job_id r = jid then set_clause dumps now st res err prog att r else r) =
             ''succeeded'' \<or>
           status (if job_id r = jid then set_clause dumps now st res err prog att r else r) =
             ''failed'')
          (if job_id r = jid then set_clause dumps now st res err prog att r else r)"
  proof (cases "job_id r = jid")
    case True
    then have "wg = True" using w h by simp
    then have "row_inv True wn r" using v by simp
    from row_inv_set_clause [OF this st] show ?thesis using True \<open>wg = True\<close> by simp
  next
    case False
    then show ?thesis using row_inv_unchanged [OF v] by simp
  qed
qed

lemma store_inv_requeue_stale_jobs:
  assumes i: "store_inv s"
  shows "store_inv (observe (requeue_stale_jobs timeout now now' (table s)) s)"
  unfolding requeue_stale_jobs_def Let_def
proof (rule store_inv_rewrite [OF i])
  fix r
  show "job_id (if is_stale (now - of_int timeout) r
                then r\<lparr>status := ''queued'', worker_id := None, updated_at := now'\<rparr> else r) =
        job_id r"
    by simp
next
  fix r wg wn
  assume v: "row_inv wg wn r"
  show "row_inv
          (wg \<or> status (if is_stale (now - of_int timeout) r
                then r\<lparr>status := ''queued'', worker_id := None, updated_at := now'\<rparr> else r) =
             ''running'')
          (wn \<or> status (if is_stale (now - of_int timeout) r
                then r\<lparr>status := ''queued'', worker_id := None, updated_at := now'\<rparr> else r) =
             ''succeeded'' \<or>
           status (if is_stale (now - of_int timeout) r
                then r\<lparr>status := ''queued'', worker_id := None, updated_at := now'\<rparr> else r) =
             ''failed'')
          (if is_stale (now - of_int timeout) r
                then r\<lparr>status := ''queued'', worker_id := None, updated_at := now'\<rparr> else r)"
  proof (cases "is_stale (now - of_int timeout) r")
    case True
    then show ?thesis using v by (auto simp: row_inv_def is_stale_def)
  next
    case False
    then show ?thesis using row_inv_unchanged [OF v] by simp
  qed
qed

lemma store_inv_claim_update:
  assumes i: "store_inv s"
  shows "store_inv (observe (claim_update now w jid (table s)) s)"
  unfolding claim_update_def
proof (rule store_inv_rewrite [OF i])
  fix r
  show "job_id (if job_id r = jid \<and> status r = ''queued''
                then r\<lparr>status := ''running'', started_at := Some now, worker_id := Some w,
                       updated_at := now\<rparr> else r) = job_id r"
    by simp
next
  fix r wg wn
  assume v: "row_inv wg wn r"
  show "row_inv
          (wg \<or> status (if job_id r = jid \<and> status r = ''queued''
                then r\<lparr>status := ''running'', started_at := Some now, worker_id := Some w,
                       updated_at := now\<rparr> else r) = ''running'')
          (wn \<or> status (if job_id r = jid \<and> status r = ''queued''
                then r\<lparr>status := ''running'', started_at := Some now, worker_id := Some w,
                       updated_at := now\<rparr> else r) = ''succeeded'' \<or>
           status (if job_id r = jid \<and> status r = ''queued''
                then r\<lparr>status := ''running'', started_at := Some now, worker_id := Some w,
                       updated_at := now\<rparr> else r) = ''failed'')
          (if job_id r = jid \<and> status r = ''queued''
                then r\<lparr>status := ''running'', started_at := Some now, worker_id := Some w,
                       updated_at := now\<rparr> else r)"
  proof (cases "job_id r = jid \<and> status r = ''queued''")
    case True
    then show ?thesis using v by (auto simp: row_inv_def)
  next
    case False
    then show ?thesis using row_inv_unchanged [OF v] by auto
  qed
qed

lemma store_inv_worker_first:
  assumes i: "store_inv s" and h: "job_id j \<in> was_running s"
  shows "store_inv (observe (worker_first dumps j t (table s)) s)"
  unfolding worker_first_def using h by (simp add: store_inv_update_job_status [OF i])

lemma store_inv_observe_same:
  assumes i: "store_inv s"
  shows "store_inv (observe (table s) s)"
proof -
  have "store_inv (observe (map (\<lambda>r. r) (table s)) s)"
    by (rule store_inv_rewrite [OF i]) (simp_all add: row_inv_unchanged)
  then show ?thesis by simp
qed

lemma store_inv_worker_last:
  assumes i: "store_inv s" and h: "job_id j \<in> was_running s"
  shows "store_inv (observe (worker_last dumps j out t (table s)) s)"
  unfolding worker_last_def on_exception_def Let_def using h
  by (cases out)
     (simp_all add: store_inv_update_job_status [OF i] store_inv_observe_same [OF i])

lemma store_inv_bookkeeping:
  assumes "store_inv s" and "\<forall>h \<in> H. job_id (snd (snd h)) \<in> was_running s"
  shows "store_inv (s\<lparr>selected := S, held := H\<rparr>)" and "store_inv (s\<lparr>held := H\<rparr>)"
    and "store_inv (s\<lparr>selected := S\<rparr>)"
  using assms by (simp_all add: store_inv_def)

lemma observe_keeps:
  "held (observe db s) = held s" "selected (observe db s) = selected s"
  "was_running s \<subseteq> was_running (observe db s)"
  by (auto simp: observe_def)

lemma claimed_job_was_running:
  assumes i: "store_inv s"
    and c: "claim_selected loads w now jid (table s) = (Inr (Some j), db')"
  shows "job_id j \<in> was_running (observe db' s)"
proof -
  let ?s' = "observe db' s"
  have db': "db' = claim_update now w jid (table s)"
    and res: "Inr (Some j) = get_job loads jid db'"
    using c by (auto simp: claim_selected_def Let_def)
  have i': "store_inv ?s'" unfolding db' by (rule store_inv_claim_update [OF i])
  from res obtain r' where
    f: "fetchone jid db' = Some r'" and p: "parse_json_fields loads r' = Inr j"
    by (auto simp: get_job_def split: option.splits sum.splits)
  have jj: "job_id j = job_id r'" using parse_json_fields_Inr [OF p] by simp
  have m: "r' \<in> set (table ?s')" using fetchone_in_set [OF f] by (simp add: observe_def)
  from f obtain r where r: "fetchone jid (table s) = Some r" and
    e: "r' = (if job_id r = jid \<and> status r = ''queued''
              then r\<lparr>status := ''running'', started_at := Some now, worker_id := Some w,
                     updated_at := now\<rparr> else r)"
    unfolding db' by (auto simp: fetchone_claim_update)
  have "job_id r = jid" using r by (rule fetchone_job_id)
  then have nq: "status r' \<noteq> ''queued''" using e by (cases "status r = ''queued''") simp_all
  have "row_inv (job_id r' \<in> was_running ?s') (job_id r' \<in> was_finished ?s') r'"
    using i' m by (simp add: store_inv_def)
  then have "job_id r' \<in> was_running ?s'" using nq by (auto simp: row_inv_def)
  then show ?thesis using jj by simp
qed

lemma store_inv_enqueue:
  assumes i: "store_inv s"
    and e: "enqueue_job dumps uuid4 now jtype P req m (table s) = Inr (jid, db')"
  shows "store_inv (observe db' s)"
proof -
  let ?n = "new_row uuid4 jtype now (dumps P) req m"
  have fresh: "uuid4 \<notin> job_id ` set (table s)" and db': "db' = table s @ [?n]"
    using e by (auto simp: enqueue_job_def split: if_splits)
  have n: "job_id ?n = uuid4" "status ?n = ''queued''" "started_at ?n = None"
          "finished_at ?n = None"
    by (simp_all add: new_row_def)
  have old: "row_inv (job_id r \<in> was_running s) (job_id r \<in> was_finished s) r"
    if "r \<in> set (table s)" for r
    using i that by (simp add: store_inv_def)
  have run: "job_id ` {r \<in> set db'. status r = ''running''} \<subseteq> was_running s"
  proof
    fix x assume "x \<in> job_id ` {r \<in> set db'. status r = ''running''}"
    then obtain r where r: "r \<in> set db'" "status r = ''running''" "x = job_id r" by blast
    then have "r \<in> set (table s)" using db' n(2) by auto
    from old [OF this] r(2,3) show "x \<in> was_running s" by (auto simp: row_inv_def)
  qed
  have fin: "job_id ` {r \<in> set db'. status r = ''succeeded'' \<or> status r = ''failed''}
               \<subseteq> was_finished s"
  proof
    fix x assume "x \<in> job_id ` {r \<in> set db'. status r = ''succeeded'' \<or> status r = ''failed''}"
    then obtain r where r: "r \<in> set db'" "status r = ''succeeded'' \<or> status r = ''failed''"
      "x = job_id r" by blast
    then have "r \<in> set (table s)" using db' n(2) by auto
    from old [OF this] r(2,3) show "x \<in> was_finished s" by (auto simp: row_inv_def)
  qed
  have wr: "was_running (observe db' s) = was_running s" using run by (auto simp: observe_def)
  have wf: "was_finished (observe db' s) = was_finished s" using fin by (auto simp: observe_def)
  have t: "table (observe db' s) = table s @ [?n]" by (simp add: observe_def db')
  have h: "held (observe db' s) = held s" by (simp add: observe_def)
  have sub: "was_running s \<subseteq> job_id ` set (table s)" "was_finished s \<subseteq> job_id ` set (table s)"
    "\<forall>h \<in> held s. job_id (snd (snd h)) \<in> was_running s" "distinct (map job_id (table s))"
    using i by (simp_all add: store_inv_def)
  have new: "row_inv (job_id ?n \<in> was_running s) (job_id ?n \<in> was_finished s) ?n"
    using fresh sub(1,2) n by (auto simp: row_inv_def)
  show ?thesis
    unfolding store_inv_def wr wf t h
    using old new sub fresh n(1) by auto
qed

lemma store_inv_apply_event:
  assumes i: "store_inv s"
  shows "store_inv (apply_event loads dumps e s)"
proof (cases e)
  case (Enqueue uuid4 now jtype P req m)
  show ?thesis
  proof (cases "enqueue_job dumps uuid4 now jtype P req m (table s)")
    case (Inl err)
    then show ?thesis using i Enqueue by simp
  next
    case (Inr p)
    obtain jid db' where "p = (jid, db')" by (cases p)
    then show ?thesis using Inr Enqueue store_inv_enqueue [OF i] by simp
  qed
next
  case (Requeue timeout now now')
  then show ?thesis using store_inv_requeue_stale_jobs [OF i] by simp
next
  case (Select w)
  have "\<forall>h \<in> held s. job_id (snd (snd h)) \<in> was_running s" using i by (simp add: store_inv_def)
  from store_inv_bookkeeping(3) [OF i this] show ?thesis
    using i Select by (simp split: option.splits)
next
  case (Claim w jid now)
  show ?thesis
  proof (cases "(w, jid) \<in> selected s")
    case False
    then show ?thesis using i Claim by simp
  next
    case True
    obtain res db' where c: "claim_selected loads w now jid (table s) = (res, db')"
      by (cases "claim_selected loads w now jid (table s)")
    let ?s' = "observe db' s"
    let ?H = "case res of Inr (Some j) \<Rightarrow> insert (w, False, j) (held s) | _ \<Rightarrow> held s"
    have "db' = claim_update now w jid (table s)"
      using c by (auto simp: claim_selected_def Let_def)
    then have i': "store_inv ?s'" using store_inv_claim_update [OF i] by simp
    have old: "\<forall>h \<in> held s. job_id (snd (snd h)) \<in> was_running ?s'"
      using i observe_keeps(3) [of s db'] by (auto simp: store_inv_def)
    have "\<forall>h \<in> ?H. job_id (snd (snd h)) \<in> was_running ?s'"
    proof (cases res)
      case (Inl err)
      then show ?thesis using old by simp
    next
      case (Inr opt)
      show ?thesis
      proof (cases opt)
        case None
        then show ?thesis using Inr old by simp
      next
        case (Some j)
        from claimed_job_was_running [OF i c [unfolded Inr Some]] show ?thesis
          using Inr Some old by simp
      qed
    qed
    from store_inv_bookkeeping(1) [OF i' this, of "selected s - {(w, jid)}"] show ?thesis
      using True Claim c by simp
  qed
next
  case (First w j t)
  show ?thesis
  proof (cases "(w, False, j) \<in> held s")
    case False
    then show ?thesis using i First by simp
  next
    case True
    let ?s' = "observe (worker_first dumps j t (table s)) s"
    have jr: "job_id j \<in> was_running s" using i True by (auto simp: store_inv_def)
    have i': "store_inv ?s'" by (rule store_inv_worker_first [OF i jr])
    have old: "\<forall>h \<in> held s. job_id (snd (snd h)) \<in> was_running ?s'"
      using i observe_keeps(3) [of s "worker_first dumps j t (table s)"]
      by (auto simp: store_inv_def)
    have jr': "job_id j \<in> was_running ?s'"
      using jr observe_keeps(3) [of s "worker_first dumps j t (table s)"] by blast
    have "\<forall>h \<in> (if job_type j = ''generate_amazon_content''
                 then insert (w, True, j) (held s - {(w, False, j)})
                 else held s - {(w, False, j)}). job_id (snd (snd h)) \<in> was_running ?s'"
      using old jr' by simp
    from store_inv_bookkeeping(2) [OF i' this] show ?thesis using True First by simp
  qed
next
  case (Last w j out t)
  show ?thesis
  proof (cases "(w, True, j) \<in> held s")
    case False
    then show ?thesis using i Last by simp
  next
    case True
    let ?s' = "observe (worker_last dumps j out t (table s)) s"
    have jr: "job_id j \<in> was_running s" using i True by (auto simp: store_inv_def)
    have i': "store_inv ?s'" by (rule store_inv_worker_last [OF i jr])
    have "\<forall>h \<in> held s - {(w, True, j)}. job_id (snd (snd h)) \<in> was_running ?s'"
      using i observe_keeps(3) [of s "worker_last dumps j out t (table s)"]
      by (auto simp: store_inv_def)
    from store_inv_bookkeeping(2) [OF i' this] show ?thesis using True Last by simp
  qed
qed

lemma reachable_store_inv: "reachable loads dumps s \<Longrightarrow> store_inv s"
proof (induction rule: reachable.induct)
  case initial
  show ?case by (simp add: store_inv_def empty_store_def)
next
  case (step s e)
  then show ?case by (simp add: store_inv_apply_event)
qed


lemma reachable_run: "reachable loads dumps (run loads dumps es)"
proof (induction es rule: rev_induct)
  case Nil
  show ?case by (simp add: run_def reachable.initial)
next
  case (snoc e es)
  then show ?case by (simp add: run_def reachable.step)
qed

lemma stale_trace_table:
  "map job_id (table (run json_loads json_dumps stale_trace)) = [''j1''] \<and>
   map started_at (table (run json_loads json_dumps stale_trace)) = [Some 703] \<and>
   map finished_at (table (run json_loads json_dumps stale_trace)) = [Some 800]"
  by code_simp


text \<open>
  Claim C5, amended. In every state reachable from the empty store by statements of
  \<^verbatim>\<open>enqueue_job\<close>, \<^verbatim>\<open>claim_next_job\<close>, \<^verbatim>\<open>process_job\<close> and \<^verbatim>\<open>requeue_stale_jobs\<close>,
  interleaved in any order among any number of workers, every job has one of the four
  statuses; \<^verbatim>\<open>finished_at\<close> is set whenever the status is \<^verbatim>\<open>succeeded\<close> or \<^verbatim>\<open>failed\<close>,
  and it is set exactly when the status has at some point been \<^verbatim>\<open>succeeded\<close> or
  \<^verbatim>\<open>failed\<close>; \<^verbatim>\<open>started_at\<close> is set exactly when the status has at some point been
  \<^verbatim>\<open>running\<close>.
\<close>

theorem reachable_state_machine:
  assumes "reachable loads dumps s"
  shows "\<forall>r \<in> set (table s).
           (status r = ''queued'' \<or> status r = ''running'' \<or> status r = ''succeeded'' \<or>
            status r = ''failed'') \<and>
           (status r = ''succeeded'' \<or> status r = ''failed'' \<longrightarrow> finished_at r \<noteq> None) \<and>
           (finished_at r \<noteq> None \<longleftrightarrow> job_id r \<in> was_finished s) \<and>
           (started_at r \<noteq> None \<longleftrightarrow> job_id r \<in> was_running s)"
proof
  fix r assume r: "r \<in> set (table s)"
  have "store_inv s" using assms by (rule reachable_store_inv)
  then have "row_inv (job_id r \<in> was_running s) (job_id r \<in> was_finished s) r"
    using r by (simp add: store_inv_def)
  then show "(status r = ''queued'' \<or> status r = ''running'' \<or> status r = ''succeeded'' \<or>
            status r = ''failed'') \<and>
           (status r = ''succeeded'' \<or> status r = ''failed'' \<longrightarrow> finished_at r \<noteq> None) \<and>
           (finished_at r \<noteq> None \<longleftrightarrow> job_id r \<in> was_finished s) \<and>
           (started_at r \<noteq> None \<longleftrightarrow> job_id r \<in> was_running s)"
    by (auto simp: row_inv_def)
qed

theorem reachable_state_machine_witness:
  "reachable json_loads json_dumps (run json_loads json_dumps stale_trace) \<and>
   map job_id (table (run json_loads json_dumps stale_trace)) = [''j1''] \<and>
   map finished_at (table (run json_loads json_dumps stale_trace)) = [Some 800] \<and>
   ''j1'' \<in> was_finished (run json_loads json_dumps stale_trace) \<and>
   ''j1'' \<in> was_running (run json_loads json_dumps stale_trace)"
proof -
  let ?s = "run json_loads json_dumps stale_trace"
  have r: "reachable json_loads json_dumps ?s" by (rule reachable_run)
  from stale_trace_table obtain row where
    t: "table ?s = [row]" and
    f: "job_id row = ''j1''" "started_at row = Some 703" "finished_at row = Some 800"
    by (cases "table ?s") auto
  have "row \<in> set (table ?s)" using t by simp
  with reachable_state_machine [OF r] have
    "(finished_at row \<noteq> None \<longleftrightarrow> job_id row \<in> was_finished ?s) \<and>
     (started_at row \<noteq> None \<longleftrightarrow> job_id row \<in> was_running ?s)"
    by blast
  then have "''j1'' \<in> was_finished ?s \<and> ''j1'' \<in> was_running ?s" using f by simp
  then show ?thesis using r stale_trace_table by blast
qed

text \<open>
  The claim as written has \<^verbatim>\<open>finished_at\<close> null whenever the status is \<^verbatim>\<open>queued\<close> or
  \<^verbatim>\<open>running\<close>. After the ten statements of \<open>stale_trace\<close> the job is \<^verbatim>\<open>queued\<close>
  again, for its second attempt, with the \<^verbatim>\<open>finished_at\<close> that worker A wrote.
\<close>

theorem stale_reclaim_counterexample:
  "map status (table (run json_loads json_dumps stale_trace)) = [''queued''] \<and>
   map finished_at (table (run json_loads json_dumps stale_trace)) = [Some 800] \<and>
   held (run json_loads json_dumps (take 8 stale_trace)) =
     {(''worker-B'', True, job_B), (''worker-A'', True, job_A)}"
  by code_simp

end
